theory Spec2Isabelle
  imports Complex_Main
begin

section \<open>Data model (types/game.ts, config/gameConfig.ts)\<close>

text \<open>
  A \<open>Cell\<close> is \<open>number | null\<close>: \<open>None\<close> is the empty cell, \<open>Some v\<close> a tile. Tile
  values are modelled as unbounded integers; the values a game can reach (at most
  \<open>2 ^ 17\<close> on a 4 by 4 board) are exactly representable JavaScript numbers.
  A \<open>Grid\<close> is \<open>Cell[][]\<close>, a list of rows. The functions below index rows and columns
  \<open>0 .. SIZE - 1\<close>; they agree with the source on grids of \<open>SIZE\<close> rows of \<open>SIZE\<close> cells
  (predicate \<open>wf_grid\<close>), the only shape the program ever builds, and each statement about
  grids assumes that shape.
\<close>

type_synonym Cell = "int option"
type_synonym Grid = "Cell list list"

datatype Direction = Up | Down | Left | Right

record GameState =
  grid :: Grid
  score :: int
  gameOver :: bool
  won :: bool

definition SIZE :: nat where
  "SIZE = 4"

definition WINNING_TILE :: int where
  "WINNING_TILE = 2048"

definition INITIAL_TILES :: nat where
  "INITIAL_TILES = 2"

definition PROBABILITY_OF_2 :: real where
  "PROBABILITY_OF_2 = 9 / 10"

section \<open>Board queries and the tile spawner (utils/gameLogic.ts)\<close>

definition createEmptyGrid :: Grid where
  "createEmptyGrid = map (\<lambda>_. replicate SIZE None) (replicate SIZE (None :: Cell))"

text \<open>The two nested \<open>for\<close> loops push the empty positions in row-major order.\<close>

definition getEmptyCells :: "Grid \<Rightarrow> (nat \<times> nat) list" where
  "getEmptyCells g =
     fold (\<lambda>row emptyCells.
            fold (\<lambda>col emptyCells.
                   if g ! row ! col = None then emptyCells @ [(row, col)] else emptyCells)
                 [0..<SIZE] emptyCells)
          [0..<SIZE] []"

text \<open>
  \<open>Math.random()\<close> is an input of the model: \<open>u1\<close> is the outcome of the position draw
  in \<open>Math.floor(Math.random() * emptyCells.length)\<close>, \<open>u2\<close> the outcome of the value draw
  in \<open>Math.random() < PROBABILITY_OF_2\<close>; both are numbers in \<open>[0, 1)\<close> (predicate
  \<open>valid_draw\<close>). On a full grid the source returns before drawing.
\<close>

definition addRandomTile :: "Grid \<Rightarrow> real \<Rightarrow> real \<Rightarrow> Grid" where
  "addRandomTile g u1 u2 =
     (let newGrid = map (\<lambda>row. row) g;
          emptyCells = getEmptyCells newGrid
      in if length emptyCells = 0 then newGrid
         else
           let randomIndex = nat \<lfloor>u1 * real (length emptyCells)\<rfloor>;
               (randomRow, randomCol) = emptyCells ! randomIndex;
               newTileValue = (if u2 < PROBABILITY_OF_2 then 2 else 4)
           in newGrid[randomRow := (newGrid ! randomRow)[randomCol := Some newTileValue]])"

section \<open>The line engine\<close>

subsection \<open>\<open>JSON.stringify\<close> on a line\<close>

text \<open>
  \<open>processLine\<close> compares the line before and after through \<open>JSON.stringify\<close>. On an array
  of integers and \<open>null\<close> it prints \<open>[\<close>, the cells separated by commas, and \<open>]\<close>; an
  integer is printed in decimal with a leading minus sign when negative (JavaScript does
  so for integers below \<open>10 ^ 21\<close> in absolute value), \<open>null\<close> as \<open>null\<close>.
\<close>

definition digit_char :: "nat \<Rightarrow> char" where
  "digit_char d = ''0123456789'' ! d"

function string_of_nat :: "nat \<Rightarrow> string" where
  "string_of_nat n =
     (if n < 10 then [digit_char n]
      else string_of_nat (n div 10) @ [digit_char (n mod 10)])"
  by pat_completeness auto
termination
  by (relation "measure id") auto

declare string_of_nat.simps [simp del]

definition number_to_string :: "int \<Rightarrow> string" where
  "number_to_string v =
     (if v < 0 then CHR ''-'' # string_of_nat (nat (- v)) else string_of_nat (nat v))"

definition cell_json :: "Cell \<Rightarrow> string" where
  "cell_json c = (case c of None \<Rightarrow> ''null'' | Some v \<Rightarrow> number_to_string v)"

fun join_comma :: "string list \<Rightarrow> string" where
  "join_comma [] = []"
| "join_comma [s] = s"
| "join_comma (s # t # ss) = s @ CHR '','' # join_comma (t # ss)"

definition JSON_stringify :: "Cell list \<Rightarrow> string" where
  "JSON_stringify line = CHR ''['' # join_comma (map cell_json line) @ [CHR '']'']"



subsection \<open>\<open>processLine\<close>\<close>

text \<open>
  The merge loop \<open>while (i < filteredLine.length)\<close>, with the index \<open>i\<close>, the array
  \<open>mergedLine\<close> and the counter \<open>scoreGained\<close> as explicit state.
\<close>

function merge_loop :: "int list \<Rightarrow> nat \<Rightarrow> Cell list \<Rightarrow> int \<Rightarrow> Cell list \<times> int" where
  "merge_loop filteredLine i mergedLine scoreGained =
     (if i < length filteredLine then
        (if i < length filteredLine - 1 \<and> filteredLine ! i = filteredLine ! (i + 1) then
           (let mergedValue = filteredLine ! i * 2
            in merge_loop filteredLine (i + 2) (mergedLine @ [Some mergedValue])
                 (scoreGained + mergedValue))
         else merge_loop filteredLine (i + 1) (mergedLine @ [Some (filteredLine ! i)]) scoreGained)
      else (mergedLine, scoreGained))"
  by pat_completeness auto
termination
  by (relation "measure (\<lambda>(filteredLine, i, mergedLine, scoreGained). length filteredLine - i)")
    auto

declare merge_loop.simps [simp del]

text \<open>The padding loop \<open>while (mergedLine.length < SIZE) mergedLine.push(null)\<close>.\<close>

function pad_loop :: "Cell list \<Rightarrow> Cell list" where
  "pad_loop mergedLine =
     (if length mergedLine < SIZE then pad_loop (mergedLine @ [None]) else mergedLine)"
  by pat_completeness auto
termination
  by (relation "measure (\<lambda>mergedLine. SIZE - length mergedLine)") auto

declare pad_loop.simps [simp del]

record LineResult =
  newLine :: "Cell list"
  changed :: bool
  scoreGained :: int

definition processLine :: "Cell list \<Rightarrow> LineResult" where
  "processLine line =
     (let originalLine = line;
          filteredLine = map the (filter (\<lambda>cell. cell \<noteq> None) line);
          (mergedLine, scoreGained) = merge_loop filteredLine 0 [] 0;
          mergedLine = pad_loop mergedLine;
          changed = (JSON_stringify originalLine \<noteq> JSON_stringify mergedLine)
      in \<lparr>newLine = mergedLine, changed = changed, scoreGained = scoreGained\<rparr>)"

section \<open>The grid transform\<close>

text \<open>
  Each direction is a \<open>for\<close> loop over the \<open>SIZE\<close> rows or columns; its state is the
  working copy \<open>newGrid\<close>, the flag \<open>totalMoved\<close> and the counter \<open>totalScoreGained\<close>.
  One function per loop body.
\<close>

definition left_body :: "nat \<Rightarrow> Grid \<times> bool \<times> int \<Rightarrow> Grid \<times> bool \<times> int" where
  "left_body row st =
     (case st of (newGrid, totalMoved, totalScoreGained) \<Rightarrow>
        let r = processLine (newGrid ! row)
        in if changed r
           then (newGrid[row := newLine r], True, totalScoreGained + LineResult.scoreGained r)
           else (newGrid, totalMoved, totalScoreGained))"

definition right_body :: "nat \<Rightarrow> Grid \<times> bool \<times> int \<Rightarrow> Grid \<times> bool \<times> int" where
  "right_body row st =
     (case st of (newGrid, totalMoved, totalScoreGained) \<Rightarrow>
        let reversedRow = rev (newGrid ! row);
            r = processLine reversedRow
        in if changed r
           then (newGrid[row := rev (newLine r)], True,
                 totalScoreGained + LineResult.scoreGained r)
           else (newGrid, totalMoved, totalScoreGained))"

text \<open>The inner loop \<open>newGrid[row][col] = line[row]\<close> for \<open>row = 0 .. SIZE - 1\<close>.\<close>

definition write_column :: "Grid \<Rightarrow> nat \<Rightarrow> Cell list \<Rightarrow> Grid" where
  "write_column newGrid col line =
     fold (\<lambda>row g. g[row := (g ! row)[col := line ! row]]) [0..<SIZE] newGrid"

definition up_body :: "nat \<Rightarrow> Grid \<times> bool \<times> int \<Rightarrow> Grid \<times> bool \<times> int" where
  "up_body col st =
     (case st of (newGrid, totalMoved, totalScoreGained) \<Rightarrow>
        let column = [newGrid ! 0 ! col, newGrid ! 1 ! col, newGrid ! 2 ! col, newGrid ! 3 ! col];
            r = processLine column
        in if changed r
           then (write_column newGrid col (newLine r), True,
                 totalScoreGained + LineResult.scoreGained r)
           else (newGrid, totalMoved, totalScoreGained))"

definition down_body :: "nat \<Rightarrow> Grid \<times> bool \<times> int \<Rightarrow> Grid \<times> bool \<times> int" where
  "down_body col st =
     (case st of (newGrid, totalMoved, totalScoreGained) \<Rightarrow>
        let column =
              rev [newGrid ! 0 ! col, newGrid ! 1 ! col, newGrid ! 2 ! col, newGrid ! 3 ! col];
            r = processLine column
        in if changed r
           then (let reversedLine = rev (newLine r)
                 in (write_column newGrid col reversedLine, True,
                     totalScoreGained + LineResult.scoreGained r))
           else (newGrid, totalMoved, totalScoreGained))"

record MoveResult =
  newGrid :: Grid
  moved :: bool
  scoreGained :: int

definition moveGrid :: "Grid \<Rightarrow> Direction \<Rightarrow> MoveResult" where
  "moveGrid g direction =
     (let newGrid = map (\<lambda>row. row) g;
          body = (case direction of
                    Left \<Rightarrow> left_body
                  | Right \<Rightarrow> right_body
                  | Up \<Rightarrow> up_body
                  | Down \<Rightarrow> down_body);
          (newGrid, totalMoved, totalScoreGained) = fold body [0..<SIZE] (newGrid, False, 0)
      in \<lparr>newGrid = newGrid, moved = totalMoved, scoreGained = totalScoreGained\<rparr>)"

section \<open>The terminal detector\<close>

text \<open>
  Each pair of nested loops returns \<open>false\<close> at the first position that satisfies its
  test; the function returns \<open>true\<close> when all three run to their end.
\<close>

definition isGameOver :: "Grid \<Rightarrow> bool" where
  "isGameOver g =
     (if list_ex (\<lambda>row. list_ex (\<lambda>col. g ! row ! col = None) [0..<SIZE]) [0..<SIZE]
      then False
      else if list_ex (\<lambda>row. list_ex (\<lambda>col. g ! row ! col = g ! row ! (col + 1))
                                [0..<SIZE - 1]) [0..<SIZE]
      then False
      else if list_ex (\<lambda>row. list_ex (\<lambda>col. g ! row ! col = g ! (row + 1) ! col)
                                [0..<SIZE]) [0..<SIZE - 1]
      then False
      else True)"

definition hasWon :: "Grid \<Rightarrow> bool" where
  "hasWon g =
     list_ex (\<lambda>row. list_ex (\<lambda>col. g ! row ! col = Some WINNING_TILE) [0..<SIZE]) [0..<SIZE]"

text \<open>
  \<open>initializeGame\<close> adds \<open>INITIAL_TILES\<close> tiles to the empty grid; \<open>draws i\<close> is the pair
  of random outcomes of the \<open>i\<close>-th call of \<open>addRandomTile\<close>.
\<close>

definition initializeGame :: "(nat \<Rightarrow> real \<times> real) \<Rightarrow> GameState" where
  "initializeGame draws =
     (let g = fold (\<lambda>i g. addRandomTile g (fst (draws i)) (snd (draws i)))
                [0..<INITIAL_TILES] createEmptyGrid
      in \<lparr>grid = g, score = 0, gameOver = False, won = False\<rparr>)"

section \<open>The turn controller (hooks/useGameLogic.ts)\<close>

text \<open>
  \<open>move\<close> maps the current \<open>gameState\<close> to the next one; a \<open>return\<close> before
  \<open>setGameState\<close> leaves the state as it is. \<open>reset\<close> replaces it by a fresh game.
\<close>

definition move :: "GameState \<Rightarrow> Direction \<Rightarrow> real \<Rightarrow> real \<Rightarrow> GameState" where
  "move gameState direction u1 u2 =
     (if gameOver gameState then gameState
      else
        let r = moveGrid (grid gameState) direction
        in if \<not> moved r then gameState
           else
             let gridWithNewTile = addRandomTile (newGrid r) u1 u2;
                 newScore = score gameState + MoveResult.scoreGained r;
                 gameOver' = isGameOver gridWithNewTile;
                 won' = (won gameState \<or> hasWon gridWithNewTile)
             in \<lparr>grid = gridWithNewTile, score = newScore, gameOver = gameOver', won = won'\<rparr>)"

definition reset :: "GameState \<Rightarrow> (nat \<Rightarrow> real \<times> real) \<Rightarrow> GameState" where
  "reset gameState draws = initializeGame draws"

section \<open>Notions used to state the properties\<close>

text \<open>A grid of \<open>SIZE\<close> rows of \<open>SIZE\<close> cells.\<close>

definition wf_grid :: "Grid \<Rightarrow> bool" where
  "wf_grid g = (length g = SIZE \<and> list_all (\<lambda>row. length row = SIZE) g)"

text \<open>
  The line engine in the words of its description: drop the empty cells, merge equal
  neighbours in one pass from the left, pad with empty cells on the right.
\<close>

definition remove_empty :: "Cell list \<Rightarrow> int list" where
  "remove_empty line = map the (filter (\<lambda>cell. cell \<noteq> None) line)"

fun merge_pass :: "int list \<Rightarrow> int list" where
  "merge_pass (x # y # rest) =
     (if x = y then (2 * x) # merge_pass rest else x # merge_pass (y # rest))"
| "merge_pass [x] = [x]"
| "merge_pass [] = []"

fun merge_score :: "int list \<Rightarrow> int" where
  "merge_score (x # y # rest) =
     (if x = y then 2 * x + merge_score rest else merge_score (y # rest))"
| "merge_score [x] = 0"
| "merge_score [] = 0"

definition pad_right :: "Cell list \<Rightarrow> Cell list" where
  "pad_right line = line @ replicate (SIZE - length line) None"

text \<open>
  The \<open>i\<close>-th line that \<open>moveGrid\<close> hands to \<open>processLine\<close> for a direction: a row, a
  reversed row, a column read from the top, or a column read from the bottom.
\<close>

definition line_of :: "Grid \<Rightarrow> Direction \<Rightarrow> nat \<Rightarrow> Cell list" where
  "line_of g direction i =
     (case direction of
        Left \<Rightarrow> g ! i
      | Right \<Rightarrow> rev (g ! i)
      | Up \<Rightarrow> [g ! 0 ! i, g ! 1 ! i, g ! 2 ! i, g ! 3 ! i]
      | Down \<Rightarrow> rev [g ! 0 ! i, g ! 1 ! i, g ! 2 ! i, g ! 3 ! i])"

definition move_lines :: "Grid \<Rightarrow> Direction \<Rightarrow> Cell list list" where
  "move_lines g direction = map (line_of g direction) [0..<SIZE]"

text \<open>The value of a cell (an empty cell counts as zero), of a line and of a grid.\<close>

definition cell_value :: "Cell \<Rightarrow> int" where
  "cell_value c = (case c of None \<Rightarrow> 0 | Some v \<Rightarrow> v)"

definition line_value :: "Cell list \<Rightarrow> int" where
  "line_value line = sum_list (map cell_value line)"

definition grid_value :: "Grid \<Rightarrow> int" where
  "grid_value g = sum_list (map line_value g)"

text \<open>The number of tiles (non-empty cells) of a line and of a grid.\<close>

definition line_tiles :: "Cell list \<Rightarrow> nat" where
  "line_tiles line = length (filter (\<lambda>cell. cell \<noteq> None) line)"

definition grid_tiles :: "Grid \<Rightarrow> nat" where
  "grid_tiles g = sum_list (map line_tiles g)"

text \<open>A power of two that is at least 2.\<close>

function is_tile_value :: "int \<Rightarrow> bool" where
  "is_tile_value v =
     (if v < 2 then False else if v = 2 then True else even v \<and> is_tile_value (v div 2))"
  by pat_completeness auto
termination
  by (relation "measure nat") auto

declare is_tile_value.simps [simp del]

definition cell_ok :: "Cell \<Rightarrow> bool" where
  "cell_ok c = (case c of None \<Rightarrow> True | Some v \<Rightarrow> is_tile_value v)"

definition grid_ok :: "Grid \<Rightarrow> bool" where
  "grid_ok g = list_all (list_all cell_ok) g"

text \<open>An outcome of \<open>Math.random()\<close>, and the outcomes of the draws of a new game.\<close>

definition valid_draw :: "real \<Rightarrow> bool" where
  "valid_draw u = (0 \<le> u \<and> u < 1)"

definition valid_draws :: "(nat \<Rightarrow> real \<times> real) \<Rightarrow> bool" where
  "valid_draws draws =
     list_all (\<lambda>i. valid_draw (fst (draws i)) \<and> valid_draw (snd (draws i))) [0..<INITIAL_TILES]"

text \<open>
  The game states the hook can hold: the initial one, and those produced from a reachable
  state by \<open>move\<close> or \<open>reset\<close>, whatever the random draws give.
\<close>

inductive reachable :: "GameState \<Rightarrow> bool" where
  reachable_init: "valid_draws draws \<Longrightarrow> reachable (initializeGame draws)"
| reachable_move:
    "reachable s \<Longrightarrow> valid_draw u1 \<Longrightarrow> valid_draw u2 \<Longrightarrow> reachable (move s direction u1 u2)"
| reachable_reset: "reachable s \<Longrightarrow> valid_draws draws \<Longrightarrow> reachable (reset s draws)"

section \<open>\<open>JSON.stringify\<close> tells lines apart\<close>

definition is_digit :: "char \<Rightarrow> bool" where
  "is_digit ch = (ch \<in> set ''0123456789'')"

definition comma_free :: "string \<Rightarrow> bool" where
  "comma_free s = (CHR '','' \<notin> set s)"

lemma lt10_cases:
  "(d::nat) < 10 \<Longrightarrow>
   d = 0 \<or> d = 1 \<or> d = 2 \<or> d = 3 \<or> d = 4 \<or> d = 5 \<or> d = 6 \<or> d = 7 \<or> d = 8 \<or> d = 9"
  by arith

lemma digit_char_is_digit: "d < 10 \<Longrightarrow> is_digit (digit_char d)"
  using lt10_cases [of d] by (auto simp: is_digit_def digit_char_def)

lemma digit_char_inj:
  "d < 10 \<Longrightarrow> e < 10 \<Longrightarrow> digit_char d = digit_char e \<Longrightarrow> d = e"
  using lt10_cases [of d] lt10_cases [of e] by (auto simp: digit_char_def)

lemma string_of_nat_digits: "\<forall>ch \<in> set (string_of_nat n). is_digit ch"
proof (induction n rule: string_of_nat.induct)
  case (1 n)
  show ?case
  proof (cases "n < 10")
    case True
    then show ?thesis by (simp add: string_of_nat.simps [of n] digit_char_is_digit)
  next
    case False
    with 1 show ?thesis
      by (simp add: string_of_nat.simps [of n] digit_char_is_digit)
  qed
qed

lemma string_of_nat_nonempty: "string_of_nat n \<noteq> []"
  by (simp add: string_of_nat.simps [of n])

lemma string_of_nat_inj: "string_of_nat n = string_of_nat m \<Longrightarrow> n = m"
proof (induction n arbitrary: m rule: string_of_nat.induct)
  case (1 n)
  show ?case
  proof (cases "n < 10")
    case n: True
    show ?thesis
    proof (cases "m < 10")
      case True
      with n 1(2) show ?thesis
        by (simp add: string_of_nat.simps [of n] string_of_nat.simps [of m] digit_char_inj)
    next
      case False
      with n 1(2) string_of_nat_nonempty [of "m div 10"] show ?thesis
        by (simp add: string_of_nat.simps [of n] string_of_nat.simps [of m] Cons_eq_append_conv)
    qed
  next
    case n: False
    show ?thesis
    proof (cases "m < 10")
      case True
      with n 1(2) string_of_nat_nonempty [of "n div 10"] show ?thesis
        by (simp add: string_of_nat.simps [of n] string_of_nat.simps [of m] append_eq_Cons_conv)
    next
      case False
      with n 1(2) have a: "string_of_nat (n div 10) = string_of_nat (m div 10)"
        and b: "digit_char (n mod 10) = digit_char (m mod 10)"
        by (simp_all add: string_of_nat.simps [of n] string_of_nat.simps [of m])
      from 1(1) [OF n a] have "n div 10 = m div 10" .
      moreover from b have "n mod 10 = m mod 10" by (simp add: digit_char_inj)
      ultimately show ?thesis by (metis div_mult_mod_eq)
    qed
  qed
qed

lemma not_digit:
  "\<not> is_digit CHR ''-''" "\<not> is_digit CHR ''n''" "\<not> is_digit CHR '',''"
  by (simp_all add: is_digit_def)

lemma hd_string_of_nat: "is_digit (hd (string_of_nat k))"
  using string_of_nat_digits [of k] string_of_nat_nonempty [of k] by simp

lemma number_to_string_inj:
  assumes eq: "number_to_string v = number_to_string w"
  shows "v = w"
proof -
  have minus: "CHR ''-'' # s \<noteq> string_of_nat k" for s k
    using hd_string_of_nat [of k] not_digit(1) by (metis list.sel(1))
  show ?thesis
  proof (cases "v < 0")
    case v: True
    show ?thesis
    proof (cases "w < 0")
      case True
      with v eq have "nat (- v) = nat (- w)"
        by (simp add: number_to_string_def string_of_nat_inj)
      with v True show ?thesis by simp
    next
      case False
      with v eq minus [of "string_of_nat (nat (- v))" "nat w"] show ?thesis
        by (simp add: number_to_string_def)
    qed
  next
    case v: False
    show ?thesis
    proof (cases "w < 0")
      case True
      with v eq minus [of "string_of_nat (nat (- w))" "nat v"] show ?thesis
        by (simp add: number_to_string_def)
    next
      case False
      with v eq have "nat v = nat w"
        by (simp add: number_to_string_def string_of_nat_inj)
      with v False show ?thesis by simp
    qed
  qed
qed

lemma number_to_string_not_null: "number_to_string v \<noteq> ''null''"
proof (cases "v < 0")
  case True
  then show ?thesis by (simp add: number_to_string_def)
next
  case False
  have "hd (string_of_nat (nat v)) \<noteq> CHR ''n''"
    using hd_string_of_nat [of "nat v"] not_digit(2) by metis
  then have "string_of_nat (nat v) \<noteq> ''null''" by auto
  with False show ?thesis by (simp add: number_to_string_def)
qed

lemma cell_json_inj: "cell_json c = cell_json d \<Longrightarrow> c = d"
  using number_to_string_not_null number_to_string_inj
  by (cases c; cases d) (auto simp: cell_json_def simp del: String.char.inject)

lemma cell_json_comma_free: "comma_free (cell_json c)"
proof (cases c)
  case None
  then show ?thesis by (simp add: cell_json_def comma_free_def)
next
  case (Some v)
  have "\<forall>ch \<in> set (string_of_nat k). ch \<noteq> CHR '',''" for k
    using string_of_nat_digits [of k] not_digit(3) by blast
  with Some show ?thesis
    by (auto simp: cell_json_def comma_free_def number_to_string_def)
qed

lemma cell_json_nonempty: "cell_json c \<noteq> []"
  by (cases c) (simp_all add: cell_json_def number_to_string_def string_of_nat_nonempty)

lemma comma_free_split:
  "comma_free a \<Longrightarrow> comma_free b \<Longrightarrow> a @ CHR '','' # r = b @ CHR '','' # s \<Longrightarrow> a = b \<and> r = s"
proof (induction a arbitrary: b)
  case Nil
  then show ?case by (cases b) (auto simp: comma_free_def)
next
  case (Cons x a)
  then show ?case by (cases b) (auto simp: comma_free_def)
qed

lemma join_comma_nonempty:
  "ss \<noteq> [] \<Longrightarrow> \<forall>s \<in> set ss. s \<noteq> [] \<Longrightarrow> join_comma ss \<noteq> []"
  by (induction ss rule: join_comma.induct) auto

lemma join_comma_inj:
  "\<forall>s \<in> set ss. comma_free s \<and> s \<noteq> [] \<Longrightarrow> \<forall>t \<in> set ts. comma_free t \<and> t \<noteq> [] \<Longrightarrow>
   join_comma ss = join_comma ts \<Longrightarrow> ss = ts"
proof (induction ss arbitrary: ts rule: join_comma.induct)
  case 1
  show ?case
  proof (cases ts)
    case Nil
    then show ?thesis by simp
  next
    case (Cons t ts')
    with 1 join_comma_nonempty [of ts] show ?thesis by auto
  qed
next
  case (2 s)
  show ?case
  proof (cases ts rule: join_comma.cases)
    case 1
    with 2 show ?thesis by simp
  next
    case (2 t)
    with "2.prems" show ?thesis by simp
  next
    case (3 t u us)
    with "2.prems" have "s = t @ CHR '','' # join_comma (u # us)" "comma_free s" by simp_all
    then show ?thesis by (simp add: comma_free_def)
  qed
next
  case (3 s t ss)
  show ?case
  proof (cases ts rule: join_comma.cases)
    case 1
    with "3.prems" join_comma_nonempty [of "s # t # ss"] show ?thesis by auto
  next
    case (2 u)
    with "3.prems" have "u = s @ CHR '','' # join_comma (t # ss)" "comma_free u" by simp_all
    then show ?thesis by (simp add: comma_free_def)
  next
    case (3 u v us)
    with "3.prems" have "s @ CHR '','' # join_comma (t # ss) = u @ CHR '','' # join_comma (v # us)"
      and "comma_free s" and "comma_free u" by simp_all
    then have a: "s = u" and b: "join_comma (t # ss) = join_comma (v # us)"
      using comma_free_split by blast+
    from "3.prems" 3 have "t # ss = v # us"
      by (intro "3.IH" b) simp_all
    with a 3 show ?thesis by simp
  qed
qed

lemma JSON_stringify_inj: "JSON_stringify xs = JSON_stringify ys \<longleftrightarrow> xs = ys"
proof
  assume "JSON_stringify xs = JSON_stringify ys"
  then have "join_comma (map cell_json xs) = join_comma (map cell_json ys)"
    by (simp add: JSON_stringify_def)
  then have "map cell_json xs = map cell_json ys"
    by (intro join_comma_inj) (simp_all add: cell_json_comma_free cell_json_nonempty)
  then show "xs = ys"
    by (metis cell_json_inj inj_onI inj_on_map_eq_map)
qed simp

section \<open>Properties of the line engine\<close>

lemma merge_loop_eq:
  "merge_loop f i m s = (m @ map Some (merge_pass (drop i f)), s + merge_score (drop i f))"
proof (induction f i m s rule: merge_loop.induct)
  case (1 f i m s)
  show ?case
  proof (cases "i < length f")
    case False
    then show ?thesis by (simp add: merge_loop.simps [of f i])
  next
    case i: True
    then have d1: "drop i f = f ! i # drop (Suc i) f"
      by (simp add: Cons_nth_drop_Suc)
    show ?thesis
    proof (cases "i < length f - 1")
      case False
      with i have "drop (Suc i) f = []" by simp
      with 1(2) i False d1 show ?thesis
        by (simp add: merge_loop.simps [of f i])
    next
      case True
      then have d2: "drop (Suc i) f = f ! (i + 1) # drop (i + 2) f"
        by (simp add: Cons_nth_drop_Suc)
      show ?thesis
      proof (cases "f ! i = f ! (i + 1)")
        case eq: True
        with 1(1) i True d1 d2 show ?thesis
          by (simp add: merge_loop.simps [of f i] Let_def)
      next
        case False
        with 1(2) i True d1 d2 show ?thesis
          by (simp add: merge_loop.simps [of f i])
      qed
    qed
  qed
qed

lemma pad_loop_eq: "pad_loop m = pad_right m"
proof (induction m rule: pad_loop.induct)
  case (1 m)
  show ?case
  proof (cases "length m < SIZE")
    case True
    then have "SIZE - length m = Suc (SIZE - Suc (length m))" by simp
    with 1 True show ?thesis
      by (simp add: pad_loop.simps [of m] pad_right_def replicate_append_same [symmetric] del: replicate_Suc)
        (simp add: replicate_app_Cons_same)
  next
    case False
    then show ?thesis by (simp add: pad_loop.simps [of m] pad_right_def)
  qed
qed

lemma processLine_newLine:
  "newLine (processLine line) = pad_right (map Some (merge_pass (remove_empty line)))"
  by (simp add: processLine_def Let_def merge_loop_eq pad_loop_eq remove_empty_def)

lemma processLine_score:
  "LineResult.scoreGained (processLine line) = merge_score (remove_empty line)"
  by (simp add: processLine_def Let_def merge_loop_eq pad_loop_eq remove_empty_def)

lemma processLine_changed:
  "changed (processLine line) \<longleftrightarrow> line \<noteq> newLine (processLine line)"
  by (simp add: processLine_def Let_def merge_loop_eq pad_loop_eq JSON_stringify_inj)

lemma length_merge_pass: "length (merge_pass f) \<le> length f"
  by (induction f rule: merge_pass.induct) auto

lemma merge_score_shrinks: "merge_score f \<noteq> 0 \<Longrightarrow> length (merge_pass f) < length f"
proof (induction f rule: merge_pass.induct)
  case (1 x y rest)
  then show ?case using length_merge_pass [of rest] by (auto split: if_splits)
qed simp_all

lemma remove_empty_pad: "remove_empty (pad_right (map Some xs)) = xs"
  by (simp add: remove_empty_def pad_right_def filter_map comp_def)

lemma length_remove_empty: "length (remove_empty line) \<le> length line"
  by (simp add: remove_empty_def)

lemma length_newLine:
  "length line = SIZE \<Longrightarrow> length (newLine (processLine line)) = SIZE"
  using length_merge_pass [of "remove_empty line"] length_remove_empty [of line]
  by (simp add: processLine_newLine pad_right_def)

lemma unchanged_newLine: "\<not> changed (processLine line) \<Longrightarrow> newLine (processLine line) = line"
  by (simp add: processLine_changed)

lemma unchanged_score:
  assumes "\<not> changed (processLine line)"
  shows "LineResult.scoreGained (processLine line) = 0"
proof (rule ccontr)
  assume "LineResult.scoreGained (processLine line) \<noteq> 0"
  then have less: "length (merge_pass (remove_empty line)) < length (remove_empty line)"
    by (simp add: processLine_score merge_score_shrinks)
  from assms have "line = pad_right (map Some (merge_pass (remove_empty line)))"
    by (simp add: processLine_changed processLine_newLine)
  then have "remove_empty line = remove_empty (pad_right (map Some (merge_pass (remove_empty line))))"
    by simp
  then have "remove_empty line = merge_pass (remove_empty line)"
    by (simp only: remove_empty_pad)
  with less show False by simp
qed

lemma sum_merge_pass: "sum_list (merge_pass f) = sum_list f"
  by (induction f rule: merge_pass.induct) auto

lemma line_value_remove_empty: "line_value line = sum_list (remove_empty line)"
  by (induction line) (auto simp: line_value_def remove_empty_def cell_value_def)

lemma line_value_newLine: "line_value (newLine (processLine line)) = line_value line"
proof -
  have "line_value (newLine (processLine line)) = sum_list (merge_pass (remove_empty line))"
    by (simp only: line_value_remove_empty processLine_newLine remove_empty_pad)
  then show ?thesis by (simp add: sum_merge_pass line_value_remove_empty)
qed

lemma is_tile_value_double: "is_tile_value v \<Longrightarrow> is_tile_value (2 * v)"
proof -
  assume v: "is_tile_value v"
  then have "2 \<le> v" by (simp add: is_tile_value.simps [of v] split: if_splits)
  with v show ?thesis by (simp add: is_tile_value.simps [of "2 * v"])
qed

lemma is_tile_value_2_4: "is_tile_value 2" "is_tile_value 4"
  by (simp_all add: is_tile_value.simps [of 2] is_tile_value.simps [of 4])

lemma is_tile_value_iff: "is_tile_value v \<longleftrightarrow> (\<exists>k\<ge>1. v = 2 ^ k)"
proof
  show "is_tile_value v \<Longrightarrow> \<exists>k\<ge>1. v = 2 ^ k"
  proof (induction v rule: is_tile_value.induct)
    case (1 v)
    show ?case
    proof (cases "v = 2")
      case True
      then show ?thesis by (intro exI [of _ 1]) simp
    next
      case False
      with 1(2) have v: "2 < v" "even v" "is_tile_value (v div 2)"
        by (simp_all add: is_tile_value.simps [of v] split: if_splits)
      with 1(1) False obtain k where "k \<ge> 1" "v div 2 = 2 ^ k" by auto
      with v(2) have "v = 2 ^ Suc k" by auto
      then show ?thesis by (intro exI [of _ "Suc k"]) simp
    qed
  qed
next
  assume "\<exists>k\<ge>1. v = 2 ^ k"
  then obtain k where "k \<ge> 1" "v = 2 ^ k" by blast
  then show "is_tile_value v"
  proof (induction k arbitrary: v)
    case 0
    then show ?case by simp
  next
    case (Suc k)
    show ?case
    proof (cases "k = 0")
      case True
      with Suc show ?thesis by (simp add: is_tile_value_2_4)
    next
      case False
      with Suc have "is_tile_value (2 ^ k)" by simp
      with Suc(3) show ?thesis using is_tile_value_double by simp
    qed
  qed
qed

lemma merge_pass_ok: "list_all is_tile_value f \<Longrightarrow> list_all is_tile_value (merge_pass f)"
  by (induction f rule: merge_pass.induct) (auto simp: is_tile_value_double)

lemma remove_empty_ok: "list_all cell_ok line \<Longrightarrow> list_all is_tile_value (remove_empty line)"
  by (induction line) (auto simp: remove_empty_def cell_ok_def)

lemma newLine_ok: "list_all cell_ok line \<Longrightarrow> list_all cell_ok (newLine (processLine line))"
  using merge_pass_ok [OF remove_empty_ok, of line]
  by (auto simp: processLine_newLine pad_right_def list_all_iff cell_ok_def)

section \<open>The grid transform, line by line\<close>

lemma upt_SIZE: "[0..<SIZE] = [0, 1, 2, 3]"
  by (simp add: SIZE_def upt_rec)

lemma list4: "length l = 4 \<Longrightarrow> l = [l ! 0, l ! 1, l ! 2, l ! 3]"
  by (cases l; simp; cases "tl l"; simp; cases "tl (tl l)"; simp; cases "tl (tl (tl l))"; simp)

lemma length_newLine4: "length line = 4 \<Longrightarrow> length (newLine (processLine line)) = 4"
  using length_newLine [of line] by (simp add: SIZE_def)

lemma left_body_eq:
  "row < length ng \<Longrightarrow>
   left_body row (ng, mv, sc) =
     (ng[row := newLine (processLine (ng ! row))],
      mv \<or> changed (processLine (ng ! row)),
      sc + LineResult.scoreGained (processLine (ng ! row)))"
  by (simp add: left_body_def Let_def unchanged_newLine unchanged_score)

lemma right_body_eq:
  "row < length ng \<Longrightarrow>
   right_body row (ng, mv, sc) =
     (ng[row := rev (newLine (processLine (rev (ng ! row))))],
      mv \<or> changed (processLine (rev (ng ! row))),
      sc + LineResult.scoreGained (processLine (rev (ng ! row))))"
  by (simp add: right_body_def Let_def unchanged_newLine unchanged_score)

lemma moveGrid_Left:
  "moveGrid [r0, r1, r2, r3] Left =
     \<lparr>newGrid = [newLine (processLine r0), newLine (processLine r1),
                 newLine (processLine r2), newLine (processLine r3)],
      moved = (changed (processLine r0) \<or> changed (processLine r1)
               \<or> changed (processLine r2) \<or> changed (processLine r3)),
      scoreGained = LineResult.scoreGained (processLine r0)
                    + LineResult.scoreGained (processLine r1)
                    + LineResult.scoreGained (processLine r2)
                    + LineResult.scoreGained (processLine r3)\<rparr>"
  by (simp add: moveGrid_def upt_SIZE left_body_eq)

lemma moveGrid_Right:
  "moveGrid [r0, r1, r2, r3] Right =
     \<lparr>newGrid = [rev (newLine (processLine (rev r0))), rev (newLine (processLine (rev r1))),
                 rev (newLine (processLine (rev r2))), rev (newLine (processLine (rev r3)))],
      moved = (changed (processLine (rev r0)) \<or> changed (processLine (rev r1))
               \<or> changed (processLine (rev r2)) \<or> changed (processLine (rev r3))),
      scoreGained = LineResult.scoreGained (processLine (rev r0))
                    + LineResult.scoreGained (processLine (rev r1))
                    + LineResult.scoreGained (processLine (rev r2))
                    + LineResult.scoreGained (processLine (rev r3))\<rparr>"
  by (simp add: moveGrid_def upt_SIZE right_body_eq)

lemma write_column_explicit:
  "col < 4 \<Longrightarrow>
   write_column [r0, r1, r2, r3] col line =
     [r0[col := line ! 0], r1[col := line ! 1], r2[col := line ! 2], r3[col := line ! 3]]"
  by (simp add: write_column_def upt_SIZE)

lemma up_body_eq:
  assumes "col < 4" "length r0 = 4" "length r1 = 4" "length r2 = 4" "length r3 = 4"
  shows "up_body col ([r0, r1, r2, r3], mv, sc) =
     (write_column [r0, r1, r2, r3] col (newLine (processLine [r0 ! col, r1 ! col, r2 ! col, r3 ! col])),
      mv \<or> changed (processLine [r0 ! col, r1 ! col, r2 ! col, r3 ! col]),
      sc + LineResult.scoreGained (processLine [r0 ! col, r1 ! col, r2 ! col, r3 ! col]))"
  using assms
  by (simp add: up_body_def Let_def unchanged_newLine unchanged_score write_column_explicit)

lemma down_body_eq:
  assumes "col < 4" "length r0 = 4" "length r1 = 4" "length r2 = 4" "length r3 = 4"
  shows "down_body col ([r0, r1, r2, r3], mv, sc) =
     (write_column [r0, r1, r2, r3] col
        (rev (newLine (processLine [r3 ! col, r2 ! col, r1 ! col, r0 ! col]))),
      mv \<or> changed (processLine [r3 ! col, r2 ! col, r1 ! col, r0 ! col]),
      sc + LineResult.scoreGained (processLine [r3 ! col, r2 ! col, r1 ! col, r0 ! col]))"
  using assms
  by (simp add: down_body_def Let_def unchanged_newLine unchanged_score write_column_explicit)


lemma moveGrid_Up:
  fixes a0 a1 a2 a3 b0 b1 b2 b3 c0 c1 c2 c3 d0 d1 d2 d3 :: Cell
  defines "p0 \<equiv> processLine [a0, b0, c0, d0]"
    and "p1 \<equiv> processLine [a1, b1, c1, d1]"
    and "p2 \<equiv> processLine [a2, b2, c2, d2]"
    and "p3 \<equiv> processLine [a3, b3, c3, d3]"
  shows "moveGrid [[a0, a1, a2, a3], [b0, b1, b2, b3], [c0, c1, c2, c3], [d0, d1, d2, d3]] Up =
     \<lparr>newGrid = [[newLine p0 ! 0, newLine p1 ! 0, newLine p2 ! 0, newLine p3 ! 0],
                 [newLine p0 ! 1, newLine p1 ! 1, newLine p2 ! 1, newLine p3 ! 1],
                 [newLine p0 ! 2, newLine p1 ! 2, newLine p2 ! 2, newLine p3 ! 2],
                 [newLine p0 ! 3, newLine p1 ! 3, newLine p2 ! 3, newLine p3 ! 3]],
      moved = (changed p0 \<or> changed p1 \<or> changed p2 \<or> changed p3),
      scoreGained = LineResult.scoreGained p0 + LineResult.scoreGained p1
                    + LineResult.scoreGained p2 + LineResult.scoreGained p3\<rparr>"
  unfolding p0_def p1_def p2_def p3_def
  by (simp add: moveGrid_def upt_SIZE up_body_eq write_column_explicit)

lemma moveGrid_Down:
  fixes a0 a1 a2 a3 b0 b1 b2 b3 c0 c1 c2 c3 d0 d1 d2 d3 :: Cell
  defines "p0 \<equiv> processLine [d0, c0, b0, a0]"
    and "p1 \<equiv> processLine [d1, c1, b1, a1]"
    and "p2 \<equiv> processLine [d2, c2, b2, a2]"
    and "p3 \<equiv> processLine [d3, c3, b3, a3]"
  shows "moveGrid [[a0, a1, a2, a3], [b0, b1, b2, b3], [c0, c1, c2, c3], [d0, d1, d2, d3]] Down =
     \<lparr>newGrid = [[newLine p0 ! 3, newLine p1 ! 3, newLine p2 ! 3, newLine p3 ! 3],
                 [newLine p0 ! 2, newLine p1 ! 2, newLine p2 ! 2, newLine p3 ! 2],
                 [newLine p0 ! 1, newLine p1 ! 1, newLine p2 ! 1, newLine p3 ! 1],
                 [newLine p0 ! 0, newLine p1 ! 0, newLine p2 ! 0, newLine p3 ! 0]],
      moved = (changed p0 \<or> changed p1 \<or> changed p2 \<or> changed p3),
      scoreGained = LineResult.scoreGained p0 + LineResult.scoreGained p1
                    + LineResult.scoreGained p2 + LineResult.scoreGained p3\<rparr>"
proof -
  have r: "rev l ! 0 = l ! 3" "rev l ! Suc 0 = l ! 2" "rev l ! 2 = l ! Suc 0" "rev l ! 3 = l ! 0"
    if "length l = 4" for l :: "Cell list"
    using that by (simp_all add: rev_nth)
  show ?thesis
    unfolding p0_def p1_def p2_def p3_def
    by (simp add: moveGrid_def upt_SIZE down_body_eq write_column_explicit r length_newLine4)
qed


lemma wf_gridE:
  assumes "wf_grid g"
  obtains a0 a1 a2 a3 b0 b1 b2 b3 c0 c1 c2 c3 d0 d1 d2 d3 :: Cell
  where "g = [[a0, a1, a2, a3], [b0, b1, b2, b3], [c0, c1, c2, c3], [d0, d1, d2, d3]]"
proof -
  from assms have len: "length g = 4" and rows: "\<forall>row \<in> set g. length row = 4"
    by (simp_all add: wf_grid_def SIZE_def list_all_iff)
  from len have g: "g = [g ! 0, g ! 1, g ! 2, g ! 3]" by (rule list4)
  with rows have "length (g ! 0) = 4" "length (g ! 1) = 4" "length (g ! 2) = 4" "length (g ! 3) = 4"
    by (metis list.set_intros(1), metis list.set_intros(1,2), metis list.set_intros(1,2),
        metis list.set_intros(1,2))
  then have "g ! 0 = [g ! 0 ! 0, g ! 0 ! 1, g ! 0 ! 2, g ! 0 ! 3]"
    "g ! 1 = [g ! 1 ! 0, g ! 1 ! 1, g ! 1 ! 2, g ! 1 ! 3]"
    "g ! 2 = [g ! 2 ! 0, g ! 2 ! 1, g ! 2 ! 2, g ! 2 ! 3]"
    "g ! 3 = [g ! 3 ! 0, g ! 3 ! 1, g ! 3 ! 2, g ! 3 ! 3]"
    by (simp_all only: list4 [symmetric])
  with g have "g = [[g ! 0 ! 0, g ! 0 ! 1, g ! 0 ! 2, g ! 0 ! 3],
                    [g ! 1 ! 0, g ! 1 ! 1, g ! 1 ! 2, g ! 1 ! 3],
                    [g ! 2 ! 0, g ! 2 ! 1, g ! 2 ! 2, g ! 2 ! 3],
                    [g ! 3 ! 0, g ! 3 ! 1, g ! 3 ! 2, g ! 3 ! 3]]"
    by metis
  then show ?thesis by (rule that)
qed

lemma lt_SIZE_cases: "i < SIZE \<Longrightarrow> i = 0 \<or> i = 1 \<or> i = 2 \<or> i = 3"
  by (auto simp: SIZE_def)

lemma wf_grid_explicit [simp]:
  "wf_grid [[a0, a1, a2, a3], [b0, b1, b2, b3], [c0, c1, c2, c3], [d0, d1, d2, d3]]"
  by (simp add: wf_grid_def SIZE_def)

lemma rev4: "rev [a, b, c, d] = [d, c, b, a]"
  by simp

lemma moveGrid_wf:
  assumes "wf_grid g"
  shows "wf_grid (newGrid (moveGrid g direction))"
proof -
  from assms obtain a0 a1 a2 a3 b0 b1 b2 b3 c0 c1 c2 c3 d0 d1 d2 d3
    where g: "g = [[a0, a1, a2, a3], [b0, b1, b2, b3], [c0, c1, c2, c3], [d0, d1, d2, d3]]"
    by (rule wf_gridE)
  show ?thesis
  proof (cases direction)
    case Left
    with g show ?thesis
      by (simp add: moveGrid_Left wf_grid_def SIZE_def length_newLine4)
  next
    case Right
    with g show ?thesis
      by (simp add: moveGrid_Right wf_grid_def SIZE_def length_newLine4)
  next
    case Up
    with g show ?thesis by (simp add: moveGrid_Up)
  next
    case Down
    with g show ?thesis by (simp add: moveGrid_Down)
  qed
qed

lemma moveGrid_line:
  assumes "wf_grid g" "i < SIZE"
  shows "line_of (newGrid (moveGrid g direction)) direction i
         = newLine (processLine (line_of g direction i))"
proof -
  from assms(1) obtain a0 a1 a2 a3 b0 b1 b2 b3 c0 c1 c2 c3 d0 d1 d2 d3
    where g: "g = [[a0, a1, a2, a3], [b0, b1, b2, b3], [c0, c1, c2, c3], [d0, d1, d2, d3]]"
    by (rule wf_gridE)
  have l4: "[l ! 0, l ! Suc 0, l ! 2, l ! 3] = l" if "length l = 4" for l :: "Cell list"
    using list4 [OF that] by simp
  show ?thesis
  proof (cases direction)
    case Left
    with g lt_SIZE_cases [OF assms(2)] show ?thesis
      by (auto simp: moveGrid_Left line_of_def)
  next
    case Right
    with g lt_SIZE_cases [OF assms(2)] show ?thesis
      by (auto simp: moveGrid_Right line_of_def)
  next
    case Up
    with g lt_SIZE_cases [OF assms(2)] show ?thesis
      by (auto simp: moveGrid_Up line_of_def l4 length_newLine4)
  next
    case Down
    with g lt_SIZE_cases [OF assms(2)] show ?thesis
      by (auto simp: moveGrid_Down line_of_def l4 length_newLine4)
  qed
qed

lemma moveGrid_moved:
  assumes "wf_grid g"
  shows "moved (moveGrid g direction)
         = list_ex (\<lambda>line. changed (processLine line)) (move_lines g direction)"
proof -
  from assms obtain a0 a1 a2 a3 b0 b1 b2 b3 c0 c1 c2 c3 d0 d1 d2 d3
    where g: "g = [[a0, a1, a2, a3], [b0, b1, b2, b3], [c0, c1, c2, c3], [d0, d1, d2, d3]]"
    by (rule wf_gridE)
  show ?thesis
  proof (cases direction)
    case Left
    with g show ?thesis by (simp add: moveGrid_Left move_lines_def upt_SIZE line_of_def)
  next
    case Right
    with g show ?thesis by (simp add: moveGrid_Right move_lines_def upt_SIZE line_of_def)
  next
    case Up
    with g show ?thesis by (simp add: moveGrid_Up move_lines_def upt_SIZE line_of_def)
  next
    case Down
    with g show ?thesis by (simp add: moveGrid_Down move_lines_def upt_SIZE line_of_def)
  qed
qed

lemma moveGrid_score:
  assumes "wf_grid g"
  shows "MoveResult.scoreGained (moveGrid g direction)
         = sum_list (map (\<lambda>line. LineResult.scoreGained (processLine line))
                      (move_lines g direction))"
proof -
  from assms obtain a0 a1 a2 a3 b0 b1 b2 b3 c0 c1 c2 c3 d0 d1 d2 d3
    where g: "g = [[a0, a1, a2, a3], [b0, b1, b2, b3], [c0, c1, c2, c3], [d0, d1, d2, d3]]"
    by (rule wf_gridE)
  show ?thesis
  proof (cases direction)
    case Left
    with g show ?thesis by (simp add: moveGrid_Left move_lines_def upt_SIZE line_of_def)
  next
    case Right
    with g show ?thesis by (simp add: moveGrid_Right move_lines_def upt_SIZE line_of_def)
  next
    case Up
    with g show ?thesis by (simp add: moveGrid_Up move_lines_def upt_SIZE line_of_def)
  next
    case Down
    with g show ?thesis by (simp add: moveGrid_Down move_lines_def upt_SIZE line_of_def)
  qed
qed

section \<open>Evaluating the line engine on concrete lines\<close>

lemma replicate_num: "replicate (numeral k) x = x # replicate (pred_numeral k) x"
  by (simp add: numeral_eq_Suc)

lemma upt_4: "[0..<4] = [0, 1, 2, 3]"
  by (simp add: upt_rec)

lemmas line_eval =
  processLine_changed processLine_newLine processLine_score remove_empty_def pad_right_def
  SIZE_def replicate_num upt_4



section \<open>The grid transform: \<open>moved\<close> and \<open>scoreGained\<close>\<close>

text \<open>
  C1. For a 4 by 4 grid and any direction, \<open>moved\<close> is the disjunction of the \<open>changed\<close>
  flags of the four lines processed, and \<open>scoreGained\<close> is the sum of the four lines'
  \<open>scoreGained\<close>: every line contributes, although the loop adds a line's score only when
  its \<open>changed\<close> flag is set.
\<close>

theorem moveGrid_moved_and_score:
  assumes "wf_grid g"
  shows "moved (moveGrid g direction)
           = list_ex (\<lambda>line. changed (processLine line)) (move_lines g direction)
         \<and> MoveResult.scoreGained (moveGrid g direction)
           = sum_list (map (\<lambda>line. LineResult.scoreGained (processLine line))
                        (move_lines g direction))"
  using assms by (simp add: moveGrid_moved moveGrid_score)

theorem moveGrid_moved_and_score_witness:
  "wf_grid [[Some 2, Some 2, None, None], [None, None, None, None],
            [None, Some 4, None, Some 4], [Some 2, Some 4, Some 8, Some 16]]
   \<and> moved (moveGrid [[Some 2, Some 2, None, None], [None, None, None, None],
                       [None, Some 4, None, Some 4], [Some 2, Some 4, Some 8, Some 16]] Up)
   \<and> MoveResult.scoreGained
        (moveGrid [[Some 2, Some 2, None, None], [None, None, None, None],
                   [None, Some 4, None, Some 4], [Some 2, Some 4, Some 8, Some 16]] Up) = 12"
  using moveGrid_moved_and_score
    [of "[[Some 2, Some 2, None, None], [None, None, None, None],
          [None, Some 4, None, Some 4], [Some 2, Some 4, Some 8, Some 16]]" Up]
  by (simp add: move_lines_def line_of_def upt_SIZE line_eval)



section \<open>One merge pass; moves that change nothing; the \<open>won\<close> flag\<close>

text \<open>
  C2. \<open>processLine\<close> removes the empty cells in order, then makes one pass from the left
  in which two equal neighbours become one cell of twice the value, the doubled value is
  added to \<open>scoreGained\<close>, and a cell just created is not merged again; the result is padded
  with empty cells. In particular \<open>[2,2,2,2]\<close> becomes \<open>[4,4,empty,empty]\<close> with score 8,
  not \<open>[8,empty,empty,empty]\<close>.
\<close>

theorem processLine_single_pass:
  "newLine (processLine line) = pad_right (map Some (merge_pass (remove_empty line)))
   \<and> LineResult.scoreGained (processLine line) = merge_score (remove_empty line)
   \<and> newLine (processLine [Some 2, Some 2, Some 2, Some 2]) = [Some 4, Some 4, None, None]
   \<and> LineResult.scoreGained (processLine [Some 2, Some 2, Some 2, Some 2]) = 8
   \<and> newLine (processLine [Some 2, Some 2, Some 2, Some 2]) \<noteq> [Some 8, None, None, None]"
proof -
  have "remove_empty [Some 2, Some 2, Some 2, Some 2] = [2, 2, 2, 2]"
    by (simp add: remove_empty_def)
  then show ?thesis
    by (simp add: processLine_newLine processLine_score pad_right_def SIZE_def numeral_2_eq_2)
qed

theorem processLine_single_pass_witness:
  "newLine (processLine [Some 2, None, Some 2, Some 2]) = [Some 4, Some 2, None, None]
   \<and> LineResult.scoreGained (processLine [Some 2, None, Some 2, Some 2]) = 4"
  using processLine_single_pass [of "[Some 2, None, Some 2, Some 2]"]
  by (simp add: remove_empty_def pad_right_def SIZE_def numeral_2_eq_2)

text \<open>
  C5. \<open>move\<close> leaves the game state as it is (grid, score, \<open>gameOver\<close> and \<open>won\<close>) when
  \<open>gameOver\<close> is set, and when the grid transform reports \<open>moved = false\<close>: no tile is
  spawned and no score is added.
\<close>

theorem move_noop:
  assumes "wf_grid (grid s)"
  shows "(gameOver s \<longrightarrow> move s direction u1 u2 = s)
         \<and> (\<not> moved (moveGrid (grid s) direction) \<longrightarrow> move s direction u1 u2 = s)"
  by (simp add: move_def Let_def)

theorem move_noop_witness:
  "gameOver \<lparr>grid = [[Some 2, Some 4, Some 2, Some 4], [Some 4, Some 2, Some 4, Some 2],
                     [Some 2, Some 4, Some 2, Some 4], [Some 4, Some 2, Some 4, Some 2]],
             score = 8, gameOver = True, won = False\<rparr>
   \<and> move \<lparr>grid = [[Some 2, Some 4, Some 2, Some 4], [Some 4, Some 2, Some 4, Some 2],
                   [Some 2, Some 4, Some 2, Some 4], [Some 4, Some 2, Some 4, Some 2]],
           score = 8, gameOver = True, won = False\<rparr> Up (1 / 2) (1 / 2)
     = \<lparr>grid = [[Some 2, Some 4, Some 2, Some 4], [Some 4, Some 2, Some 4, Some 2],
                 [Some 2, Some 4, Some 2, Some 4], [Some 4, Some 2, Some 4, Some 2]],
         score = 8, gameOver = True, won = False\<rparr>
   \<and> \<not> moved (moveGrid [[Some 2, Some 4, None, None], [None, None, None, None],
                         [Some 8, None, None, None], [None, None, None, None]] Left)
   \<and> move \<lparr>grid = [[Some 2, Some 4, None, None], [None, None, None, None],
                   [Some 8, None, None, None], [None, None, None, None]],
           score = 8, gameOver = False, won = False\<rparr> Left (1 / 2) (1 / 2)
     = \<lparr>grid = [[Some 2, Some 4, None, None], [None, None, None, None],
                 [Some 8, None, None, None], [None, None, None, None]],
         score = 8, gameOver = False, won = False\<rparr>"
proof -
  let ?over = "\<lparr>grid = [[Some 2, Some 4, Some 2, Some 4], [Some 4, Some 2, Some 4, Some 2],
                        [Some 2, Some 4, Some 2, Some 4], [Some 4, Some 2, Some 4, Some 2]],
                score = 8, gameOver = True, won = False\<rparr>"
  let ?blocked = "\<lparr>grid = [[Some 2, Some 4, None, None], [None, None, None, None],
                           [Some 8, None, None, None], [None, None, None, None]],
                   score = 8, gameOver = False, won = False\<rparr>"
  have wf: "wf_grid (grid ?over)" "wf_grid (grid ?blocked)"
    by simp_all
  have h: "\<not> moved (moveGrid [[Some 2, Some 4, None, None], [None, None, None, None],
                         [Some 8, None, None, None], [None, None, None, None]] Left)"
    by (simp add: moveGrid_Left line_eval)
  show ?thesis
    using h move_noop [OF wf(1), of Up "1 / 2" "1 / 2"]
      move_noop [OF wf(2), of Left "1 / 2" "1 / 2"]
    by simp
qed

text \<open>
  C6. The \<open>won\<close> flag never goes back: a state with \<open>won\<close> set is followed by states with
  \<open>won\<close> set, since an accepted move sets the new flag to the old one or the win check of
  the grid after the spawn.
\<close>

theorem won_monotonic:
  assumes "wf_grid (grid s)"
  shows "(won s \<longrightarrow> won (move s direction u1 u2))
         \<and> (\<not> gameOver s \<and> moved (moveGrid (grid s) direction) \<longrightarrow>
              won (move s direction u1 u2)
              = (won s \<or> hasWon (grid (move s direction u1 u2))))"
  by (simp add: move_def Let_def)

theorem won_monotonic_witness:
  "won \<lparr>grid = [[Some 2048, Some 2048, None, None], [None, None, None, None],
                [None, None, None, None], [None, None, None, None]],
        score = 20000, gameOver = False, won = True\<rparr>
   \<and> moved (moveGrid [[Some 2048, Some 2048, None, None], [None, None, None, None],
                [None, None, None, None], [None, None, None, None]] Left)
   \<and> won (move \<lparr>grid = [[Some 2048, Some 2048, None, None], [None, None, None, None],
                [None, None, None, None], [None, None, None, None]],
        score = 20000, gameOver = False, won = True\<rparr> Left (1 / 2) (1 / 2))"
proof -
  let ?s = "\<lparr>grid = [[Some 2048, Some 2048, None, None], [None, None, None, None],
                     [None, None, None, None], [None, None, None, None]],
             score = 20000, gameOver = False, won = True\<rparr>"
  have wf: "wf_grid (grid ?s)"
    by simp
  have h: "moved (moveGrid [[Some 2048, Some 2048, None, None], [None, None, None, None],
                [None, None, None, None], [None, None, None, None]] Left)"
    by (simp add: moveGrid_Left line_eval)
  show ?thesis
    using h won_monotonic [OF wf, of Left "1 / 2" "1 / 2"]
    by simp
qed

section \<open>Properties of the tile spawner\<close>

lemma fold_push:
  "fold (\<lambda>x acc. if P x then acc @ [f x] else acc) xs acc = acc @ map f (filter P xs)"
  by (induction xs arbitrary: acc) simp_all

lemma fold_append: "fold (\<lambda>x acc. acc @ h x) xs acc = acc @ concat (map h xs)"
  by (induction xs arbitrary: acc) simp_all

lemma getEmptyCells_eq:
  "getEmptyCells g =
     concat (map (\<lambda>row. map (Pair row) (filter (\<lambda>col. g ! row ! col = None) [0..<SIZE]))
               [0..<SIZE])"
proof -
  have inner: "fold (\<lambda>col acc. if g ! row ! col = None then acc @ [(row, col)] else acc) cols acc
               = acc @ map (Pair row) (filter (\<lambda>col. g ! row ! col = None) cols)"
    for row cols and acc :: "(nat \<times> nat) list"
    by (rule fold_push)
  show ?thesis
    by (simp add: getEmptyCells_def inner fold_append)
qed

lemma set_getEmptyCells:
  "set (getEmptyCells g) = {(row, col). row < SIZE \<and> col < SIZE \<and> g ! row ! col = None}"
  by (auto simp: getEmptyCells_eq)

lemma getEmptyCells_Nil:
  "getEmptyCells g = [] \<longleftrightarrow> (\<forall>row<SIZE. \<forall>col<SIZE. g ! row ! col \<noteq> None)"
proof -
  have "getEmptyCells g = [] \<longleftrightarrow> set (getEmptyCells g) = {}" by simp
  also have "\<dots> \<longleftrightarrow> (\<forall>row<SIZE. \<forall>col<SIZE. g ! row ! col \<noteq> None)"
    unfolding set_getEmptyCells by blast
  finally show ?thesis .
qed

lemma random_index_less:
  assumes "valid_draw u" "0 < n"
  shows "nat \<lfloor>u * real n\<rfloor> < n"
proof -
  from assms have "u * real n < real n" "0 \<le> u * real n"
    by (simp_all add: valid_draw_def)
  then have "\<lfloor>u * real n\<rfloor> < int n"
    by (simp add: floor_less_iff)
  with assms(2) show ?thesis by linarith
qed

lemma addRandomTile_full: "getEmptyCells g = [] \<Longrightarrow> addRandomTile g u1 u2 = g"
  by (simp add: addRandomTile_def)

lemma addRandomTile_spawn:
  assumes "getEmptyCells g \<noteq> []" "valid_draw u1"
  obtains row col v where "row < SIZE" "col < SIZE" "g ! row ! col = None" "v = 2 \<or> v = 4"
    "addRandomTile g u1 u2 = g[row := (g ! row)[col := Some v]]"
proof -
  let ?cells = "getEmptyCells g"
  let ?i = "nat \<lfloor>u1 * real (length ?cells)\<rfloor>"
  from assms have "?i < length ?cells" by (simp add: random_index_less)
  then have "?cells ! ?i \<in> set ?cells" by simp
  then obtain row col where rc: "?cells ! ?i = (row, col)" "row < SIZE" "col < SIZE"
    "g ! row ! col = None"
    unfolding set_getEmptyCells by blast
  let ?v = "if u2 < PROBABILITY_OF_2 then 2 else 4 :: int"
  from assms(1) rc(1) have "addRandomTile g u1 u2 = g[row := (g ! row)[col := Some ?v]]"
    by (simp add: addRandomTile_def Let_def)
  moreover have "?v = 2 \<or> ?v = 4" by simp
  ultimately show ?thesis using rc by (intro that [of row col ?v])
qed

lemma line_tiles_update:
  "i < length line \<Longrightarrow> line ! i = None \<Longrightarrow> line_tiles (line[i := Some v]) = line_tiles line + 1"
proof (induction line arbitrary: i)
  case Nil
  then show ?case by simp
next
  case (Cons x line)
  then show ?case by (cases i) (simp_all add: line_tiles_def)
qed

lemma sum_list_map_update:
  fixes f :: "'a \<Rightarrow> nat"
  shows "i < length xs \<Longrightarrow> f y = f (xs ! i) + 1 \<Longrightarrow>
         sum_list (map f (xs[i := y])) = sum_list (map f xs) + 1"
proof (induction xs arbitrary: i)
  case Nil
  then show ?case by simp
next
  case (Cons x xs)
  then show ?case by (cases i) simp_all
qed

lemma grid_tiles_update:
  assumes "wf_grid g" "row < SIZE" "col < SIZE" "g ! row ! col = None"
  shows "grid_tiles (g[row := (g ! row)[col := Some v]]) = grid_tiles g + 1"
proof -
  from assms(1,2) have "row < length g" "length (g ! row) = SIZE"
    by (simp_all add: wf_grid_def list_all_length)
  with assms(3,4) show ?thesis
    unfolding grid_tiles_def
    by (intro sum_list_map_update) (simp_all add: line_tiles_update)
qed

lemma wf_grid_update:
  assumes "wf_grid g"
  shows "wf_grid (g[row := (g ! row)[col := c]])"
proof -
  have "length ((g[row := (g ! row)[col := c]]) ! r) = SIZE" if "r < length g" for r
    using that assms by (cases "r = row") (simp_all add: wf_grid_def list_all_length)
  with assms show ?thesis by (simp add: wf_grid_def list_all_length)
qed

text \<open>
  C9. On a full grid (no empty cell) \<open>addRandomTile\<close> returns a grid equal to its input,
  whatever the draws: the full grid is a defined no-op and no failure.
\<close>

theorem addRandomTile_full_grid:
  assumes "wf_grid g" "\<forall>row<SIZE. \<forall>col<SIZE. g ! row ! col \<noteq> None"
  shows "addRandomTile g u1 u2 = g"
  using assms(2) by (simp add: addRandomTile_full getEmptyCells_Nil)

theorem addRandomTile_full_grid_witness:
  "addRandomTile [[Some 2, Some 4, Some 2, Some 4], [Some 4, Some 2, Some 4, Some 2],
                  [Some 2, Some 4, Some 2, Some 4], [Some 4, Some 2, Some 4, Some 2]]
     (1 / 2) (1 / 2)
   = [[Some 2, Some 4, Some 2, Some 4], [Some 4, Some 2, Some 4, Some 2],
      [Some 2, Some 4, Some 2, Some 4], [Some 4, Some 2, Some 4, Some 2]]"
proof -
  let ?g = "[[Some 2, Some 4, Some 2, Some 4], [Some 4, Some 2, Some 4, Some 2],
             [Some 2, Some 4, Some 2, Some 4], [Some 4, Some 2, Some 4, Some (2::int)]]"
  have wf: "wf_grid ?g"
    by simp
  have full: "\<forall>row<SIZE. \<forall>col<SIZE. ?g ! row ! col \<noteq> None"
    by (auto simp: SIZE_def less_Suc_eq numeral_eq_Suc)
  from addRandomTile_full_grid [OF wf full, of "1 / 2" "1 / 2"] show ?thesis .
qed

text \<open>
  C8. On a 4 by 4 grid with an empty cell, for any outcome of the two draws,
  \<open>addRandomTile\<close> puts a 2 or a 4 into one cell that was empty and leaves every other cell
  as it was; the number of non-empty cells grows by exactly one.
\<close>

theorem addRandomTile_one_new_tile:
  assumes "wf_grid g" "\<exists>row<SIZE. \<exists>col<SIZE. g ! row ! col = None"
    "valid_draw u1"
  shows "\<exists>row<SIZE. \<exists>col<SIZE.
           g ! row ! col = None
           \<and> (addRandomTile g u1 u2 ! row ! col = Some 2
              \<or> addRandomTile g u1 u2 ! row ! col = Some 4)
           \<and> (\<forall>r<SIZE. \<forall>c<SIZE. (r, c) \<noteq> (row, col) \<longrightarrow>
                 addRandomTile g u1 u2 ! r ! c = g ! r ! c)
           \<and> wf_grid (addRandomTile g u1 u2)
           \<and> grid_tiles (addRandomTile g u1 u2) = grid_tiles g + 1"
proof -
  from assms(2) have "getEmptyCells g \<noteq> []" by (simp add: getEmptyCells_Nil)
  then obtain row col v where rc: "row < SIZE" "col < SIZE" "g ! row ! col = None"
    and v: "v = 2 \<or> v = 4"
    and eq: "addRandomTile g u1 u2 = g[row := (g ! row)[col := Some v]]"
    using assms(3) by (rule addRandomTile_spawn)
  from assms(1) have len: "length g = SIZE" "\<And>r. r < SIZE \<Longrightarrow> length (g ! r) = SIZE"
    by (simp_all add: wf_grid_def list_all_length)
  from rc len have new: "addRandomTile g u1 u2 ! row ! col = Some v"
    by (simp add: eq)
  have other: "addRandomTile g u1 u2 ! r ! c = g ! r ! c"
    if "r < SIZE" "c < SIZE" "(r, c) \<noteq> (row, col)" for r c
    using that rc len by (cases "r = row") (simp_all add: eq)
  have "wf_grid (addRandomTile g u1 u2)"
    unfolding eq using assms(1) by (rule wf_grid_update)
  moreover have "grid_tiles (addRandomTile g u1 u2) = grid_tiles g + 1"
    unfolding eq using assms(1) rc by (rule grid_tiles_update)
  ultimately show ?thesis
    using rc new v other by blast
qed

theorem addRandomTile_one_new_tile_witness:
  "wf_grid [[Some 2, Some 2, None, None], [None, None, None, None],
            [None, Some 4, None, Some 4], [Some 2, Some 4, Some 8, Some 16]]
   \<and> (\<exists>row<SIZE. \<exists>col<SIZE.
         [[Some 2, Some 2, None, None], [None, None, None, None],
          [None, Some 4, None, Some 4], [Some 2, Some 4, Some 8, Some (16::int)]] ! row ! col
         = None)
   \<and> valid_draw (1 / 2)
   \<and> grid_tiles (addRandomTile [[Some 2, Some 2, None, None], [None, None, None, None],
                                 [None, Some 4, None, Some 4], [Some 2, Some 4, Some 8, Some 16]]
                    (1 / 2) (95 / 100))
     = grid_tiles [[Some 2, Some 2, None, None], [None, None, None, None],
                   [None, Some 4, None, Some 4], [Some 2, Some 4, Some 8, Some 16]] + 1"
proof -
  let ?g = "[[Some 2, Some 2, None, None], [None, None, None, None],
             [None, Some 4, None, Some 4], [Some 2, Some 4, Some 8, Some (16::int)]]"
  have a: "wf_grid ?g" by simp
  have "0 < SIZE \<and> 2 < SIZE \<and> ?g ! 0 ! 2 = None" by (simp add: SIZE_def)
  then have b: "\<exists>row<SIZE. \<exists>col<SIZE. ?g ! row ! col = None" by blast
  have c: "valid_draw (1 / 2)" by (simp add: valid_draw_def)
  from a b c addRandomTile_one_new_tile [OF a b c, of "95 / 100"] show ?thesis by blast
qed

section \<open>Total tile value\<close>

lemma line_value_rev: "line_value (rev line) = line_value line"
  by (simp add: line_value_def rev_map [symmetric] sum_list_rev)

lemma line_value4:
  "length l = 4 \<Longrightarrow>
   line_value l = cell_value (l ! 0) + cell_value (l ! 1) + cell_value (l ! 2) + cell_value (l ! 3)"
proof -
  assume "length l = 4"
  then have "l = [l ! 0, l ! 1, l ! 2, l ! 3]" by (rule list4)
  then have "line_value l = line_value [l ! 0, l ! 1, l ! 2, l ! 3]" by simp
  then show ?thesis by (simp add: line_value_def)
qed

lemma column_value:
  "cell_value (newLine (processLine [a, b, c, d]) ! 0)
   + cell_value (newLine (processLine [a, b, c, d]) ! 1)
   + cell_value (newLine (processLine [a, b, c, d]) ! 2)
   + cell_value (newLine (processLine [a, b, c, d]) ! 3)
   = cell_value a + cell_value b + cell_value c + cell_value d"
proof -
  have "length (newLine (processLine [a, b, c, d])) = 4" by (simp add: length_newLine4)
  from line_value4 [OF this] line_value_newLine [of "[a, b, c, d]"]
  show ?thesis by (simp add: line_value_def)
qed

lemma moveGrid_value:
  assumes "wf_grid g"
  shows "grid_value (newGrid (moveGrid g direction)) = grid_value g"
proof -
  from assms obtain a0 a1 a2 a3 b0 b1 b2 b3 c0 c1 c2 c3 d0 d1 d2 d3
    where g: "g = [[a0, a1, a2, a3], [b0, b1, b2, b3], [c0, c1, c2, c3], [d0, d1, d2, d3]]"
    by (rule wf_gridE)
  show ?thesis
  proof (cases direction)
    case Left
    with g show ?thesis
      by (simp add: moveGrid_Left grid_value_def line_value_newLine)
  next
    case Right
    with g show ?thesis
      by (simp add: moveGrid_Right grid_value_def line_value_newLine line_value_rev)
        (simp add: line_value_def)
  next
    case Up
    from column_value [of a0 b0 c0 d0] column_value [of a1 b1 c1 d1]
      column_value [of a2 b2 c2 d2] column_value [of a3 b3 c3 d3]
    show ?thesis
      unfolding g Up by (simp add: moveGrid_Up grid_value_def line_value_def)
  next
    case Down
    from column_value [of d0 c0 b0 a0] column_value [of d1 c1 b1 a1]
      column_value [of d2 c2 b2 a2] column_value [of d3 c3 b3 a3]
    show ?thesis
      unfolding g Down by (simp add: moveGrid_Down grid_value_def line_value_def)
  qed
qed

text \<open>
  C10. \<open>processLine\<close> keeps the total value of a line: the non-empty cells of \<open>newLine\<close>
  add up to the same sum as those of the input (a merge replaces two tiles \<open>v\<close> by one
  tile \<open>2v\<close>). Hence \<open>moveGrid\<close> keeps the total value of the tiles of a 4 by 4 grid.
\<close>

theorem total_value_conserved:
  "line_value (newLine (processLine line)) = line_value line
   \<and> (wf_grid g \<longrightarrow> grid_value (newGrid (moveGrid g direction)) = grid_value g)"
  by (simp add: line_value_newLine moveGrid_value)

theorem total_value_conserved_witness:
  "line_value (newLine (processLine [Some 2, None, Some 2, Some 2])) = 6
   \<and> wf_grid [[Some 2, Some 2, None, None], [None, None, None, None],
              [None, Some 4, None, Some 4], [Some 2, Some 4, Some 8, Some 16]]
   \<and> grid_value (newGrid (moveGrid [[Some 2, Some 2, None, None], [None, None, None, None],
                                     [None, Some 4, None, Some 4],
                                     [Some 2, Some 4, Some 8, Some 16]] Down)) = 42"
  using total_value_conserved
    [of "[Some 2, None, Some 2, Some 2]"
        "[[Some 2, Some 2, None, None], [None, None, None, None],
          [None, Some 4, None, Some 4], [Some 2, Some 4, Some 8, Some 16]]" Down]
  by (simp add: line_value_def grid_value_def cell_value_def)

section \<open>Reachable game states\<close>

lemma createEmptyGrid_wf: "wf_grid createEmptyGrid"
  by (simp add: createEmptyGrid_def wf_grid_def list_all_iff)

lemma createEmptyGrid_ok: "grid_ok createEmptyGrid"
  by (simp add: createEmptyGrid_def grid_ok_def list_all_iff cell_ok_def)

lemma grid_ok_update:
  assumes "grid_ok g" "cell_ok c"
  shows "grid_ok (g[row := (g ! row)[col := c]])"
proof (cases "row < length g")
  case True
  with assms(1) have "list_all cell_ok (g ! row)"
    by (simp add: grid_ok_def list_all_length)
  with assms(2) have "list_all cell_ok ((g ! row)[col := c])"
    using set_update_subset_insert [of "g ! row" col c] by (auto simp: list_all_iff)
  with assms(1) show ?thesis
    using set_update_subset_insert [of g row "(g ! row)[col := c]"]
    by (auto simp: grid_ok_def list_all_iff)
next
  case False
  then have "g[row := (g ! row)[col := c]] = g" by (simp add: list_update_beyond)
  with assms(1) show ?thesis by simp
qed

lemma addRandomTile_inv:
  assumes "wf_grid g" "grid_ok g" "valid_draw u1"
  shows "wf_grid (addRandomTile g u1 u2) \<and> grid_ok (addRandomTile g u1 u2)"
proof (cases "getEmptyCells g = []")
  case True
  with assms show ?thesis by (simp add: addRandomTile_full)
next
  case False
  then obtain row col v where v: "v = 2 \<or> v = 4"
    and eq: "addRandomTile g u1 u2 = g[row := (g ! row)[col := Some v]]"
    using assms(3) by (rule addRandomTile_spawn)
  from v have "cell_ok (Some v)" by (auto simp: cell_ok_def is_tile_value_2_4)
  with assms(1,2) show ?thesis
    unfolding eq by (simp add: wf_grid_update grid_ok_update)
qed

lemma newLine_cell_ok:
  assumes "cell_ok a" "cell_ok b" "cell_ok c" "cell_ok d" "k < 4"
  shows "cell_ok (newLine (processLine [a, b, c, d]) ! k)"
proof -
  from assms have "list_all cell_ok (newLine (processLine [a, b, c, d]))"
    by (intro newLine_ok) simp
  with assms(5) show ?thesis by (simp add: list_all_length length_newLine4)
qed

lemma moveGrid_ok:
  assumes "wf_grid g" "grid_ok g"
  shows "grid_ok (newGrid (moveGrid g direction))"
proof -
  from assms(1) obtain a0 a1 a2 a3 b0 b1 b2 b3 c0 c1 c2 c3 d0 d1 d2 d3
    where g: "g = [[a0, a1, a2, a3], [b0, b1, b2, b3], [c0, c1, c2, c3], [d0, d1, d2, d3]]"
    by (rule wf_gridE)
  show ?thesis
  proof (cases direction)
    case Left
    with g assms(2) show ?thesis
      by (simp add: moveGrid_Left grid_ok_def newLine_ok)
  next
    case Right
    with g assms(2) show ?thesis
      by (simp add: moveGrid_Right grid_ok_def newLine_ok del: rev.simps)
  next
    case Up
    with g assms(2) show ?thesis
      by (simp add: moveGrid_Up grid_ok_def newLine_cell_ok)
  next
    case Down
    with g assms(2) show ?thesis
      by (simp add: moveGrid_Down grid_ok_def newLine_cell_ok)
  qed
qed

lemma initializeGame_inv:
  assumes "valid_draws draws"
  shows "wf_grid (grid (initializeGame draws)) \<and> grid_ok (grid (initializeGame draws))"
proof -
  from assms have d: "valid_draw (fst (draws 0))" "valid_draw (fst (draws 1))"
    by (simp_all add: valid_draws_def INITIAL_TILES_def numeral_2_eq_2)
  let ?g1 = "addRandomTile createEmptyGrid (fst (draws 0)) (snd (draws 0))"
  have g1: "wf_grid ?g1 \<and> grid_ok ?g1"
    using createEmptyGrid_wf createEmptyGrid_ok d(1) by (rule addRandomTile_inv)
  have "grid (initializeGame draws) = addRandomTile ?g1 (fst (draws 1)) (snd (draws 1))"
    by (simp add: initializeGame_def INITIAL_TILES_def numeral_2_eq_2)
  with g1 d(2) show ?thesis by (simp add: addRandomTile_inv)
qed

lemma move_inv:
  assumes "wf_grid (grid s)" "grid_ok (grid s)" "valid_draw u1"
  shows "wf_grid (grid (move s direction u1 u2)) \<and> grid_ok (grid (move s direction u1 u2))"
proof (cases "gameOver s \<or> \<not> moved (moveGrid (grid s) direction)")
  case True
  with assms show ?thesis by (auto simp: move_def Let_def)
next
  case False
  then have "grid (move s direction u1 u2)
             = addRandomTile (newGrid (moveGrid (grid s) direction)) u1 u2"
    by (simp add: move_def Let_def)
  with assms show ?thesis
    by (simp add: addRandomTile_inv moveGrid_wf moveGrid_ok)
qed

lemma reachable_inv: "reachable s \<Longrightarrow> wf_grid (grid s) \<and> grid_ok (grid s)"
proof (induction rule: reachable.induct)
  case (reachable_init draws)
  then show ?case by (rule initializeGame_inv)
next
  case (reachable_move s u1 u2 direction)
  then show ?case by (simp add: move_inv)
next
  case (reachable_reset s draws)
  then show ?case by (simp add: reset_def initializeGame_inv)
qed

text \<open>
  C7. Every game state reachable from \<open>initializeGame\<close> by moves and resets, whatever the
  random draws give, has a grid of 4 rows of 4 cells in which every non-empty cell holds
  a power of two that is at least 2.
\<close>

theorem reachable_grid_invariant:
  assumes "reachable s"
  shows "length (grid s) = 4
         \<and> (\<forall>row \<in> set (grid s). length row = 4)
         \<and> (\<forall>row \<in> set (grid s). \<forall>cell \<in> set row. \<forall>v. cell = Some v \<longrightarrow> (\<exists>k\<ge>1. v = 2 ^ k))"
proof -
  from assms have wf: "wf_grid (grid s)" and ok: "grid_ok (grid s)"
    by (simp_all add: reachable_inv)
  have "\<exists>k\<ge>1. v = 2 ^ k" if "row \<in> set (grid s)" "Some v \<in> set row" for row v
  proof -
    from ok that have "cell_ok (Some v)" by (auto simp: grid_ok_def list_all_iff)
    then show ?thesis by (simp add: cell_ok_def is_tile_value_iff)
  qed
  with wf show ?thesis
    by (auto simp: wf_grid_def SIZE_def list_all_iff)
qed

theorem reachable_grid_invariant_witness:
  "reachable (move (initializeGame (\<lambda>i. (1 / 2, 1 / 3))) Left (1 / 4) (19 / 20))
   \<and> length (grid (move (initializeGame (\<lambda>i. (1 / 2, 1 / 3))) Left (1 / 4) (19 / 20))) = 4"
proof -
  have "valid_draws (\<lambda>i. (1 / 2, 1 / 3))"
    by (simp add: valid_draws_def valid_draw_def list_all_iff)
  then have "reachable (initializeGame (\<lambda>i. (1 / 2, 1 / 3)))"
    by (rule reachable_init)
  then have r: "reachable (move (initializeGame (\<lambda>i. (1 / 2, 1 / 3))) Left (1 / 4) (19 / 20))"
    by (rule reachable_move) (simp_all add: valid_draw_def)
  from r reachable_grid_invariant [OF r] show ?thesis by blast
qed

section \<open>Properties of the terminal detector\<close>

lemma upt_3: "[0..<3] = [0, 1, 2]"
  by (simp add: upt_rec)

lemma isGameOver_iff:
  "isGameOver g \<longleftrightarrow>
     (\<forall>row<SIZE. \<forall>col<SIZE. g ! row ! col \<noteq> None)
     \<and> (\<forall>row<SIZE. \<forall>col<SIZE - 1. g ! row ! col \<noteq> g ! row ! (col + 1))
     \<and> (\<forall>row<SIZE - 1. \<forall>col<SIZE. g ! row ! col \<noteq> g ! (row + 1) ! col)"
proof -
  have ex: "list_ex (\<lambda>i. list_ex (P i) [0..<m]) [0..<n] \<longleftrightarrow> (\<exists>i<n. \<exists>j<m. P i j)"
    for P :: "nat \<Rightarrow> nat \<Rightarrow> bool" and n m
    by (simp add: list_ex_iff Bex_def)
  have ite: "(if A then False else if B then False else if C then False else True)
             \<longleftrightarrow> \<not> A \<and> \<not> B \<and> \<not> C" for A B C
    by simp
  show ?thesis
    unfolding isGameOver_def ex ite by simp
qed

lemma isGameOver_explicit:
  "isGameOver [[a0, a1, a2, a3], [b0, b1, b2, b3], [c0, c1, c2, c3], [d0, d1, d2, d3]] \<longleftrightarrow>
     (a0 \<noteq> None \<and> a1 \<noteq> None \<and> a2 \<noteq> None \<and> a3 \<noteq> None
      \<and> b0 \<noteq> None \<and> b1 \<noteq> None \<and> b2 \<noteq> None \<and> b3 \<noteq> None
      \<and> c0 \<noteq> None \<and> c1 \<noteq> None \<and> c2 \<noteq> None \<and> c3 \<noteq> None
      \<and> d0 \<noteq> None \<and> d1 \<noteq> None \<and> d2 \<noteq> None \<and> d3 \<noteq> None)
     \<and> (a0 \<noteq> a1 \<and> a1 \<noteq> a2 \<and> a2 \<noteq> a3 \<and> b0 \<noteq> b1 \<and> b1 \<noteq> b2 \<and> b2 \<noteq> b3
        \<and> c0 \<noteq> c1 \<and> c1 \<noteq> c2 \<and> c2 \<noteq> c3 \<and> d0 \<noteq> d1 \<and> d1 \<noteq> d2 \<and> d2 \<noteq> d3)
     \<and> (a0 \<noteq> b0 \<and> a1 \<noteq> b1 \<and> a2 \<noteq> b2 \<and> a3 \<noteq> b3 \<and> b0 \<noteq> c0 \<and> b1 \<noteq> c1
        \<and> b2 \<noteq> c2 \<and> b3 \<noteq> c3 \<and> c0 \<noteq> d0 \<and> c1 \<noteq> d1 \<and> c2 \<noteq> d2 \<and> c3 \<noteq> d3)"
  by (simp add: isGameOver_def SIZE_def upt_4 upt_3)

text \<open>
  C4. On a 4 by 4 grid \<open>isGameOver\<close> is true exactly when no cell is empty and no two
  cells next to each other in a row or in a column hold the same tile value; an empty
  cell anywhere makes it false.
\<close>

theorem isGameOver_full_and_no_equal_neighbours:
  assumes "wf_grid g"
  shows "(isGameOver g \<longleftrightarrow>
            (\<forall>row<SIZE. \<forall>col<SIZE. g ! row ! col \<noteq> None)
            \<and> \<not> (\<exists>row col v. row < SIZE \<and> col + 1 < SIZE
                     \<and> g ! row ! col = Some v \<and> g ! row ! (col + 1) = Some v)
            \<and> \<not> (\<exists>row col v. row + 1 < SIZE \<and> col < SIZE
                     \<and> g ! row ! col = Some v \<and> g ! (row + 1) ! col = Some v))
         \<and> ((\<exists>row<SIZE. \<exists>col<SIZE. g ! row ! col = None) \<longrightarrow> \<not> isGameOver g)"
proof -
  let ?full = "\<forall>row<SIZE. \<forall>col<SIZE. g ! row ! col \<noteq> None"
  have h: "(\<forall>row<SIZE. \<forall>col<SIZE - 1. g ! row ! col \<noteq> g ! row ! (col + 1))
           \<longleftrightarrow> \<not> (\<exists>row col v. row < SIZE \<and> col + 1 < SIZE
                     \<and> g ! row ! col = Some v \<and> g ! row ! (col + 1) = Some v)"
    if ?full
  proof -
    have "g ! row ! col = g ! row ! (col + 1)
          \<longleftrightarrow> (\<exists>v. g ! row ! col = Some v \<and> g ! row ! (col + 1) = Some v)"
      if "row < SIZE" "col + 1 < SIZE" for row col
    proof -
      from that have "col < SIZE" by simp
      with \<open>?full\<close> that have "g ! row ! col \<noteq> None" "g ! row ! (col + 1) \<noteq> None"
        by blast+
      then show ?thesis by auto
    qed
    then show ?thesis
      by (metis less_diff_conv)
  qed
  have v: "(\<forall>row<SIZE - 1. \<forall>col<SIZE. g ! row ! col \<noteq> g ! (row + 1) ! col)
           \<longleftrightarrow> \<not> (\<exists>row col v. row + 1 < SIZE \<and> col < SIZE
                     \<and> g ! row ! col = Some v \<and> g ! (row + 1) ! col = Some v)"
    if ?full
  proof -
    have "g ! row ! col = g ! (row + 1) ! col
          \<longleftrightarrow> (\<exists>v. g ! row ! col = Some v \<and> g ! (row + 1) ! col = Some v)"
      if "row + 1 < SIZE" "col < SIZE" for row col
    proof -
      from that have "row < SIZE" by simp
      with \<open>?full\<close> that have "g ! row ! col \<noteq> None" "g ! (row + 1) ! col \<noteq> None"
        by blast+
      then show ?thesis by auto
    qed
    then show ?thesis
      by (metis less_diff_conv)
  qed
  from h v show ?thesis
    unfolding isGameOver_iff by blast
qed

theorem isGameOver_full_and_no_equal_neighbours_witness:
  "wf_grid [[Some 2, Some 4, Some 2, Some 4], [Some 4, Some 2, Some 4, Some 2],
            [Some 2, Some 4, Some 2, Some 4], [Some 4, Some 2, Some 4, None]]
   \<and> (\<exists>row<SIZE. \<exists>col<SIZE.
         [[Some 2, Some 4, Some 2, Some 4], [Some 4, Some 2, Some 4, Some 2],
          [Some 2, Some 4, Some 2, Some 4], [Some 4, Some 2, Some 4, None :: Cell]] ! row ! col
         = None)
   \<and> \<not> isGameOver [[Some 2, Some 4, Some 2, Some 4], [Some 4, Some 2, Some 4, Some 2],
                     [Some 2, Some 4, Some 2, Some 4], [Some 4, Some 2, Some 4, None]]"
proof -
  let ?g = "[[Some 2, Some 4, Some 2, Some 4], [Some 4, Some 2, Some 4, Some 2],
             [Some 2, Some 4, Some 2, Some 4], [Some 4, Some 2, Some 4, None :: Cell]]"
  have a: "wf_grid ?g" by simp
  have "3 < SIZE \<and> ?g ! 3 ! 3 = None" by (simp add: SIZE_def)
  then have b: "\<exists>row<SIZE. \<exists>col<SIZE. ?g ! row ! col = None" by blast
  from a b isGameOver_full_and_no_equal_neighbours [OF a] show ?thesis by blast
qed

section \<open>Game over and blocked moves\<close>

lemma full_line_unchanged:
  assumes "a \<noteq> None" "b \<noteq> None" "c \<noteq> None" "d \<noteq> None" "a \<noteq> b" "b \<noteq> c" "c \<noteq> d"
  shows "\<not> changed (processLine [a, b, c, d])"
proof -
  from assms obtain x y z w where "a = Some x" "b = Some y" "c = Some z" "d = Some w"
    by auto
  with assms show ?thesis by (simp add: line_eval)
qed


lemma unchanged_shape:
  assumes "\<not> changed (processLine [a, b, c, d])"
  shows "(a = None \<longrightarrow> b = None) \<and> (b = None \<longrightarrow> c = None) \<and> (c = None \<longrightarrow> d = None)
         \<and> (a \<noteq> None \<and> b \<noteq> None \<longrightarrow> a \<noteq> b)
         \<and> (b \<noteq> None \<and> c \<noteq> None \<longrightarrow> b \<noteq> c)
         \<and> (c \<noteq> None \<and> d \<noteq> None \<longrightarrow> c \<noteq> d)"
proof (cases a)
  case a: None
  show ?thesis
  proof (cases b)
    case b: None
    show ?thesis
    proof (cases c)
      case c: None
      with a b assms show ?thesis by (cases d) (simp_all add: line_eval)
    next
      case c: (Some z)
      with a b assms show ?thesis by (cases d) (simp_all add: line_eval split: if_splits)
    qed
  next
    case b: (Some y)
    show ?thesis
    proof (cases c)
      case c: None
      with a b assms show ?thesis by (cases d) (simp_all add: line_eval split: if_splits)
    next
      case c: (Some z)
      with a b assms show ?thesis by (cases d) (simp_all add: line_eval split: if_splits)
    qed
  qed
next
  case a: (Some x)
  show ?thesis
  proof (cases b)
    case b: None
    show ?thesis
    proof (cases c)
      case c: None
      with a b assms show ?thesis by (cases d) (simp_all add: line_eval split: if_splits)
    next
      case c: (Some z)
      with a b assms show ?thesis by (cases d) (simp_all add: line_eval split: if_splits)
    qed
  next
    case b: (Some y)
    show ?thesis
    proof (cases c)
      case c: None
      with a b assms show ?thesis by (cases d) (simp_all add: line_eval split: if_splits)
    next
      case c: (Some z)
      with a b assms show ?thesis by (cases d) (simp_all add: line_eval split: if_splits)
    qed
  qed
qed


lemma unchanged_both_ways:
  assumes "\<not> changed (processLine [a, b, c, d])" "\<not> changed (processLine [d, c, b, a])"
  shows "(a = None \<and> b = None \<and> c = None \<and> d = None)
         \<or> (a \<noteq> None \<and> b \<noteq> None \<and> c \<noteq> None \<and> d \<noteq> None \<and> a \<noteq> b \<and> b \<noteq> c \<and> c \<noteq> d)"
  using unchanged_shape [OF assms(1)] unchanged_shape [OF assms(2)] by blast

lemma all_directions:
  "(\<forall>direction. P direction) \<longleftrightarrow> P Up \<and> P Down \<and> P Left \<and> P Right"
  by (metis Direction.exhaust)

lemma no_move_explicit:
  "(\<forall>direction. \<not> moved (moveGrid [[a0, a1, a2, a3], [b0, b1, b2, b3],
                                     [c0, c1, c2, c3], [d0, d1, d2, d3]] direction)) \<longleftrightarrow>
     (\<not> changed (processLine [a0, a1, a2, a3]) \<and> \<not> changed (processLine [a3, a2, a1, a0])
      \<and> \<not> changed (processLine [b0, b1, b2, b3]) \<and> \<not> changed (processLine [b3, b2, b1, b0])
      \<and> \<not> changed (processLine [c0, c1, c2, c3]) \<and> \<not> changed (processLine [c3, c2, c1, c0])
      \<and> \<not> changed (processLine [d0, d1, d2, d3]) \<and> \<not> changed (processLine [d3, d2, d1, d0])
      \<and> \<not> changed (processLine [a0, b0, c0, d0]) \<and> \<not> changed (processLine [d0, c0, b0, a0])
      \<and> \<not> changed (processLine [a1, b1, c1, d1]) \<and> \<not> changed (processLine [d1, c1, b1, a1])
      \<and> \<not> changed (processLine [a2, b2, c2, d2]) \<and> \<not> changed (processLine [d2, c2, b2, a2])
      \<and> \<not> changed (processLine [a3, b3, c3, d3]) \<and> \<not> changed (processLine [d3, c3, b3, a3]))"
  unfolding all_directions
  by (simp add: moveGrid_Left moveGrid_Right moveGrid_Up moveGrid_Down) blast

lemma tile_explicit:
  "(\<exists>row<SIZE. \<exists>col<SIZE.
      [[a0, a1, a2, a3], [b0, b1, b2, b3], [c0, c1, c2, c3], [d0, d1, d2, d3]] ! row ! col \<noteq> None)
   \<longleftrightarrow> \<not> (a0 = None \<and> a1 = None \<and> a2 = None \<and> a3 = None
          \<and> b0 = None \<and> b1 = None \<and> b2 = None \<and> b3 = None
          \<and> c0 = None \<and> c1 = None \<and> c2 = None \<and> c3 = None
          \<and> d0 = None \<and> d1 = None \<and> d2 = None \<and> d3 = None)"
proof -
  have lt: "0 < SIZE" "1 < SIZE" "2 < SIZE" "3 < SIZE"
    by (simp_all add: SIZE_def)
  have ex: "(\<exists>i<SIZE. P i) \<longleftrightarrow> P 0 \<or> P 1 \<or> P 2 \<or> P 3" for P
    using lt lt_SIZE_cases by metis
  show ?thesis unfolding ex by simp
qed

lemma game_over_iff_blocked:
  assumes "wf_grid g" "\<exists>row<SIZE. \<exists>col<SIZE. g ! row ! col \<noteq> None"
  shows "isGameOver g \<longleftrightarrow> (\<forall>direction. \<not> moved (moveGrid g direction))"
proof -
  from assms(1) obtain a0 a1 a2 a3 b0 b1 b2 b3 c0 c1 c2 c3 d0 d1 d2 d3
    where g: "g = [[a0, a1, a2, a3], [b0, b1, b2, b3], [c0, c1, c2, c3], [d0, d1, d2, d3]]"
    by (rule wf_gridE)
  from assms(2) have tile:
    "\<not> (a0 = None \<and> a1 = None \<and> a2 = None \<and> a3 = None
        \<and> b0 = None \<and> b1 = None \<and> b2 = None \<and> b3 = None
        \<and> c0 = None \<and> c1 = None \<and> c2 = None \<and> c3 = None
        \<and> d0 = None \<and> d1 = None \<and> d2 = None \<and> d3 = None)"
    unfolding g tile_explicit .
  show ?thesis
  proof
    assume "isGameOver g"
    then show "\<forall>direction. \<not> moved (moveGrid g direction)"
      unfolding g isGameOver_explicit no_move_explicit
      by (intro conjI full_line_unchanged) (simp_all add: eq_commute)
  next
    assume "\<forall>direction. \<not> moved (moveGrid g direction)"
    then have u: "\<not> changed (processLine [a0, a1, a2, a3])" "\<not> changed (processLine [a3, a2, a1, a0])"
      "\<not> changed (processLine [b0, b1, b2, b3])" "\<not> changed (processLine [b3, b2, b1, b0])"
      "\<not> changed (processLine [c0, c1, c2, c3])" "\<not> changed (processLine [c3, c2, c1, c0])"
      "\<not> changed (processLine [d0, d1, d2, d3])" "\<not> changed (processLine [d3, d2, d1, d0])"
      "\<not> changed (processLine [a0, b0, c0, d0])" "\<not> changed (processLine [d0, c0, b0, a0])"
      "\<not> changed (processLine [a1, b1, c1, d1])" "\<not> changed (processLine [d1, c1, b1, a1])"
      "\<not> changed (processLine [a2, b2, c2, d2])" "\<not> changed (processLine [d2, c2, b2, a2])"
      "\<not> changed (processLine [a3, b3, c3, d3])" "\<not> changed (processLine [d3, c3, b3, a3])"
      unfolding g no_move_explicit by blast+
    note rows = unchanged_both_ways [OF u(1,2)] unchanged_both_ways [OF u(3,4)]
      unchanged_both_ways [OF u(5,6)] unchanged_both_ways [OF u(7,8)]
    note cols = unchanged_both_ways [OF u(9,10)] unchanged_both_ways [OF u(11,12)]
      unchanged_both_ways [OF u(13,14)] unchanged_both_ways [OF u(15,16)]
    from tile rows have "(a0 \<noteq> None \<and> a1 \<noteq> None \<and> a2 \<noteq> None \<and> a3 \<noteq> None)
      \<or> (b0 \<noteq> None \<and> b1 \<noteq> None \<and> b2 \<noteq> None \<and> b3 \<noteq> None)
      \<or> (c0 \<noteq> None \<and> c1 \<noteq> None \<and> c2 \<noteq> None \<and> c3 \<noteq> None)
      \<or> (d0 \<noteq> None \<and> d1 \<noteq> None \<and> d2 \<noteq> None \<and> d3 \<noteq> None)"
      by blast
    with cols have full: "a0 \<noteq> None \<and> a1 \<noteq> None \<and> a2 \<noteq> None \<and> a3 \<noteq> None
      \<and> b0 \<noteq> None \<and> b1 \<noteq> None \<and> b2 \<noteq> None \<and> b3 \<noteq> None
      \<and> c0 \<noteq> None \<and> c1 \<noteq> None \<and> c2 \<noteq> None \<and> c3 \<noteq> None
      \<and> d0 \<noteq> None \<and> d1 \<noteq> None \<and> d2 \<noteq> None \<and> d3 \<noteq> None"
      by blast
    with rows have h: "a0 \<noteq> a1 \<and> a1 \<noteq> a2 \<and> a2 \<noteq> a3 \<and> b0 \<noteq> b1 \<and> b1 \<noteq> b2 \<and> b2 \<noteq> b3
        \<and> c0 \<noteq> c1 \<and> c1 \<noteq> c2 \<and> c2 \<noteq> c3 \<and> d0 \<noteq> d1 \<and> d1 \<noteq> d2 \<and> d2 \<noteq> d3"
      by blast
    from full cols have v: "a0 \<noteq> b0 \<and> a1 \<noteq> b1 \<and> a2 \<noteq> b2 \<and> a3 \<noteq> b3 \<and> b0 \<noteq> c0 \<and> b1 \<noteq> c1
        \<and> b2 \<noteq> c2 \<and> b3 \<noteq> c3 \<and> c0 \<noteq> d0 \<and> c1 \<noteq> d1 \<and> c2 \<noteq> d2 \<and> c3 \<noteq> d3"
      by blast
    from full h v show "isGameOver g"
      unfolding g isGameOver_explicit by blast
  qed
qed

text \<open>
  C3 (as amended). On a 4 by 4 grid with at least one tile, \<open>isGameOver\<close> is true exactly
  when no move changes the board, that is when \<open>moveGrid\<close> reports \<open>moved = false\<close> for
  each of the four directions.
\<close>

theorem game_over_iff_no_move:
  assumes "wf_grid g" "\<exists>row<SIZE. \<exists>col<SIZE. g ! row ! col \<noteq> None"
  shows "isGameOver g \<longleftrightarrow> (\<forall>direction. \<not> moved (moveGrid g direction))"
  using assms by (rule game_over_iff_blocked)

theorem game_over_iff_no_move_witness:
  "wf_grid [[Some 2, Some 4, Some 2, Some 4], [Some 4, Some 2, Some 4, Some 2],
            [Some 2, Some 4, Some 2, Some 4], [Some 4, Some 2, Some 4, Some 2]]
   \<and> (\<exists>row<SIZE. \<exists>col<SIZE.
         [[Some 2, Some 4, Some 2, Some 4], [Some 4, Some 2, Some 4, Some 2],
          [Some 2, Some 4, Some 2, Some 4], [Some 4, Some 2, Some 4, Some (2::int)]] ! row ! col
         \<noteq> None)
   \<and> isGameOver [[Some 2, Some 4, Some 2, Some 4], [Some 4, Some 2, Some 4, Some 2],
                  [Some 2, Some 4, Some 2, Some 4], [Some 4, Some 2, Some 4, Some 2]]
   \<and> (\<forall>direction.
         \<not> moved (moveGrid [[Some 2, Some 4, Some 2, Some 4], [Some 4, Some 2, Some 4, Some 2],
                            [Some 2, Some 4, Some 2, Some 4], [Some 4, Some 2, Some 4, Some 2]]
                     direction))"
proof -
  let ?g = "[[Some 2, Some 4, Some 2, Some 4], [Some 4, Some 2, Some 4, Some 2],
             [Some 2, Some 4, Some 2, Some 4], [Some 4, Some 2, Some 4, Some (2::int)]]"
  have a: "wf_grid ?g" by simp
  have "0 < SIZE \<and> ?g ! 0 ! 0 \<noteq> None" by (simp add: SIZE_def)
  then have b: "\<exists>row<SIZE. \<exists>col<SIZE. ?g ! row ! col \<noteq> None" by blast
  have c: "isGameOver ?g" by (simp add: isGameOver_explicit)
  from a b c game_over_iff_no_move [OF a b] show ?thesis by blast
qed

text \<open>
  The claim as stated, for every 4 by 4 grid, fails on the grid with no tile:
  \<open>isGameOver\<close> finds an empty cell and answers false, yet no direction moves anything.
\<close>

theorem game_over_iff_no_move_counterexample:
  "wf_grid [[None, None, None, None], [None, None, None, None],
            [None, None, None, None], [None, None, None, None]]
   \<and> \<not> isGameOver [[None, None, None, None], [None, None, None, None],
                     [None, None, None, None], [None, None, None, None]]
   \<and> \<not> moved (moveGrid [[None, None, None, None], [None, None, None, None],
                         [None, None, None, None], [None, None, None, None]] Up)
   \<and> \<not> moved (moveGrid [[None, None, None, None], [None, None, None, None],
                         [None, None, None, None], [None, None, None, None]] Down)
   \<and> \<not> moved (moveGrid [[None, None, None, None], [None, None, None, None],
                         [None, None, None, None], [None, None, None, None]] Left)
   \<and> \<not> moved (moveGrid [[None, None, None, None], [None, None, None, None],
                         [None, None, None, None], [None, None, None, None]] Right)"
  by (simp add: isGameOver_explicit moveGrid_Up moveGrid_Down moveGrid_Left moveGrid_Right
      line_eval)

end
